theory Spec2Isabelle
  imports Main
begin

section \<open>The caching layer of src/cacheHelper.js\<close>

text \<open>
  The module keeps four JavaScript \<open>Map\<close>s in the global object \<open>CACHE\<close>, together with
  the time of the last cleanup, and one instance of the class \<open>LRUCache\<close>.  Every function
  that reads the clock (\<open>Date.now()\<close>) takes the reading as an argument; a function that
  reads it twice (once for the freshness test, once for the timestamp of a new entry) takes
  two readings.  Times are milliseconds, as integers.
\<close>

subsection \<open>JavaScript Map: keys in insertion order\<close>

text \<open>
  A \<open>Map\<close> is a list of key/value pairs in insertion order, oldest first.  \<open>Map.set\<close> on a
  key that is present replaces the value and keeps the position; on a new key it appends.
  \<open>Map.delete\<close> removes the key.  A real \<open>Map\<close> never holds a key twice (\<open>Map_wf\<close>).
\<close>

type_synonym ('k, 'v) jsmap = "('k \<times> 'v) list"

fun Map_get :: "'k \<Rightarrow> ('k, 'v) jsmap \<Rightarrow> 'v option" where
  "Map_get k [] = None"
| "Map_get k ((k', v) # m) = (if k' = k then Some v else Map_get k m)"

definition Map_has :: "'k \<Rightarrow> ('k, 'v) jsmap \<Rightarrow> bool" where
  "Map_has k m = (Map_get k m \<noteq> None)"

fun Map_set :: "'k \<Rightarrow> 'v \<Rightarrow> ('k, 'v) jsmap \<Rightarrow> ('k, 'v) jsmap" where
  "Map_set k v [] = [(k, v)]"
| "Map_set k v ((k', v') # m) =
     (if k' = k then (k, v) # m else (k', v') # Map_set k v m)"

fun Map_delete :: "'k \<Rightarrow> ('k, 'v) jsmap \<Rightarrow> ('k, 'v) jsmap" where
  "Map_delete k [] = []"
| "Map_delete k ((k', v) # m) =
     (if k' = k then Map_delete k m else (k', v) # Map_delete k m)"

definition Map_size :: "('k, 'v) jsmap \<Rightarrow> int" where
  "Map_size m = int (length m)"

definition Map_keys :: "('k, 'v) jsmap \<Rightarrow> 'k list" where
  "Map_keys m = map fst m"

definition Map_wf :: "('k, 'v) jsmap \<Rightarrow> bool" where
  "Map_wf m = distinct (Map_keys m)"

subsection \<open>Entries, the global cache and its time-to-live table\<close>

text \<open>
  Every cached object is a payload with the time it was stored.  The source names the
  payload \<open>data\<close> (table structures, quotas), \<open>id\<close> (mailbox ids) or \<open>value\<close> (statistics,
  LRU items); here it is the field \<open>val\<close> of one polymorphic record.
\<close>

record 'a entry =
  val :: 'a
  timestamp :: int

record column =
  name :: string
  type :: string
  notnull :: int
  dflt_value :: "string option"

record quota =
  used :: int
  limit :: int

record CACHE =
  tableStructures :: "(string, column list entry) jsmap"
  mailboxIds :: "(string, int option entry) jsmap"
  userQuotas :: "(int, quota entry) jsmap"
  systemStats :: "(string, int entry) jsmap"
  lastClearTime :: int

definition CACHE_TTL_tableStructure :: int where
  "CACHE_TTL_tableStructure = 60 * 60 * 1000"

definition CACHE_TTL_mailboxId :: int where
  "CACHE_TTL_mailboxId = 10 * 60 * 1000"

definition CACHE_TTL_userQuota :: int where
  "CACHE_TTL_userQuota = 5 * 60 * 1000"

definition CACHE_TTL_systemStats :: int where
  "CACHE_TTL_systemStats = 10 * 60 * 1000"

definition CACHE_TTL_clearInterval :: int where
  "CACHE_TTL_clearInterval = 30 * 60 * 1000"

definition CACHE_wf :: "CACHE \<Rightarrow> bool" where
  "CACHE_wf c = (Map_wf (tableStructures c) \<and> Map_wf (mailboxIds c) \<and>
     Map_wf (userQuotas c) \<and> Map_wf (systemStats c))"

subsection \<open>The backing store\<close>

text \<open>
  The database is a collaborator: each prepared statement either throws (\<open>Inl\<close>) or
  resolves to the rows of its result.  A result object without \<open>results\<close> is read by the
  source like one with no rows.
\<close>

datatype error = Thrown string

record db =
  table_info :: "string \<Rightarrow> error + column list"
  select_mailbox_id :: "string \<Rightarrow> error + int list"
  select_mailbox_limit :: "int \<Rightarrow> error + int option list"
  count_user_mailboxes :: "int \<Rightarrow> error + int list"

subsection \<open>Table structures\<close>

text \<open>
  \<open>getCachedTableStructure\<close>: a fresh entry is returned; otherwise the query runs inside
  \<open>try\<close>, and the \<open>catch\<close> logs the error and returns the empty array.
\<close>

definition table_cols :: "column list \<Rightarrow> column list" where
  "table_cols rows = map (\<lambda>r. r\<lparr>notnull := (if notnull r \<noteq> 0 then 1 else 0)\<rparr>) rows"

definition getCachedTableStructure ::
  "db \<Rightarrow> string \<Rightarrow> int \<Rightarrow> int \<Rightarrow> CACHE \<Rightarrow> (error + column list) \<times> CACHE" where
  "getCachedTableStructure d tableName now now' c =
     (case (case Map_get tableName (tableStructures c) of
              Some cached \<Rightarrow>
                if now - timestamp cached < CACHE_TTL_tableStructure then Some (val cached) else None
            | None \<Rightarrow> None) of
        Some hit \<Rightarrow> (Inr hit, c)
      | None \<Rightarrow>
          (case table_info d tableName of
             Inl e \<Rightarrow> (Inr [], c)
           | Inr rows \<Rightarrow>
               (let cols = table_cols rows in
                (Inr cols,
                 c\<lparr>tableStructures :=
                     Map_set tableName \<lparr>val = cols, timestamp = now'\<rparr> (tableStructures c)\<rparr>))))"

definition hasColumn :: "db \<Rightarrow> string \<Rightarrow> string \<Rightarrow> int \<Rightarrow> int \<Rightarrow> CACHE \<Rightarrow> (error + bool) \<times> CACHE" where
  "hasColumn d tableName columnName now now' c =
     (case getCachedTableStructure d tableName now now' c of
        (Inl e, c') \<Rightarrow> (Inl e, c')
      | (Inr cols, c') \<Rightarrow> (Inr (list_ex (\<lambda>col. name col = columnName) cols), c'))"

subsection \<open>Mailbox ids\<close>

text \<open>
  \<open>String(address || '').trim().toLowerCase()\<close>.  An address is a string or \<open>null\<close>/
  \<open>undefined\<close> (\<open>None\<close>).  \<open>String.prototype.trim\<close> and \<open>String.prototype.toLowerCase\<close>
  belong to the JavaScript runtime, not to the module: which characters are white space
  and which letter is the lower case of which are the runtime's Unicode tables.  The
  functions that normalise an address take the two builtins as the parameter \<open>sp\<close>.
\<close>

record String_prototype =
  trim :: "string \<Rightarrow> string"
  toLowerCase :: "string \<Rightarrow> string"

definition normalized :: "String_prototype \<Rightarrow> string option \<Rightarrow> string" where
  "normalized sp address =
     toLowerCase sp (trim sp (case address of None \<Rightarrow> [] | Some a \<Rightarrow> a))"

text \<open>
  \<open>getCachedMailboxId\<close>: the empty address returns \<open>null\<close> at once; a fresh entry is
  returned; otherwise the query runs with no \<open>try\<close> around it, and its answer, \<open>null\<close>
  included, is stored.
\<close>

definition getCachedMailboxId ::
  "String_prototype \<Rightarrow> db \<Rightarrow> string option \<Rightarrow> int \<Rightarrow> int \<Rightarrow> CACHE
     \<Rightarrow> (error + int option) \<times> CACHE" where
  "getCachedMailboxId sp d address now now' c =
     (let n = normalized sp address in
      if n = [] then (Inr None, c)
      else
        (case (case Map_get n (mailboxIds c) of
                 Some cached \<Rightarrow>
                   if now - timestamp cached < CACHE_TTL_mailboxId then Some (val cached) else None
               | None \<Rightarrow> None) of
           Some hit \<Rightarrow> (Inr hit, c)
         | None \<Rightarrow>
             (case select_mailbox_id d n of
                Inl e \<Rightarrow> (Inl e, c)
              | Inr rows \<Rightarrow>
                  (let i = (case rows of [] \<Rightarrow> None | r # _ \<Rightarrow> Some r) in
                   (Inr i,
                    c\<lparr>mailboxIds :=
                        Map_set n \<lparr>val = i, timestamp = now'\<rparr> (mailboxIds c)\<rparr>)))))"

text \<open>
  \<open>updateMailboxIdCache\<close>: \<open>!id\<close> holds for \<open>null\<close> and for \<open>0\<close>; then, as for the empty
  address, nothing is written.
\<close>

definition falsy_id :: "int option \<Rightarrow> bool" where
  "falsy_id i = (i = None \<or> i = Some 0)"

definition updateMailboxIdCache ::
  "String_prototype \<Rightarrow> string option \<Rightarrow> int option \<Rightarrow> int \<Rightarrow> CACHE \<Rightarrow> CACHE" where
  "updateMailboxIdCache sp address i now c =
     (let n = normalized sp address in
      if n = [] \<or> falsy_id i then c
      else c\<lparr>mailboxIds := Map_set n \<lparr>val = i, timestamp = now\<rparr> (mailboxIds c)\<rparr>)"

definition invalidateMailboxCache :: "String_prototype \<Rightarrow> string option \<Rightarrow> CACHE \<Rightarrow> CACHE" where
  "invalidateMailboxCache sp address c =
     c\<lparr>mailboxIds := Map_delete (normalized sp address) (mailboxIds c)\<rparr>"

subsection \<open>User quotas\<close>

text \<open>
  \<open>getCachedUserQuota\<close>: two queries, neither inside a \<open>try\<close>.  The limit is the first
  row's \<open>mailbox_limit\<close>, or 10 when there is no row or the column is \<open>NULL\<close>; the count is
  the first row's \<open>c\<close>, or 0.
\<close>

definition getCachedUserQuota ::
  "db \<Rightarrow> int \<Rightarrow> int \<Rightarrow> int \<Rightarrow> CACHE \<Rightarrow> (error + quota) \<times> CACHE" where
  "getCachedUserQuota d userId now now' c =
     (case (case Map_get userId (userQuotas c) of
              Some cached \<Rightarrow>
                if now - timestamp cached < CACHE_TTL_userQuota then Some (val cached) else None
            | None \<Rightarrow> None) of
        Some hit \<Rightarrow> (Inr hit, c)
      | None \<Rightarrow>
          (case select_mailbox_limit d userId of
             Inl e \<Rightarrow> (Inl e, c)
           | Inr urows \<Rightarrow>
               (case count_user_mailboxes d userId of
                  Inl e \<Rightarrow> (Inl e, c)
                | Inr crows \<Rightarrow>
                    (let lim = (case urows of Some l # _ \<Rightarrow> l | _ \<Rightarrow> 10);
                         u = (case crows of [] \<Rightarrow> 0 | r # _ \<Rightarrow> r);
                         data = \<lparr>used = u, limit = lim\<rparr> in
                     (Inr data,
                      c\<lparr>userQuotas :=
                          Map_set userId \<lparr>val = data, timestamp = now'\<rparr> (userQuotas c)\<rparr>)))))"

definition invalidateUserQuotaCache :: "int \<Rightarrow> CACHE \<Rightarrow> CACHE" where
  "invalidateUserQuotaCache userId c = c\<lparr>userQuotas := Map_delete userId (userQuotas c)\<rparr>"

subsection \<open>System statistics\<close>

text \<open>
  \<open>getCachedSystemStat\<close>: the loader \<open>queryFn\<close> is the caller's; applied to the database
  it throws or yields the number.
\<close>

definition getCachedSystemStat ::
  "db \<Rightarrow> string \<Rightarrow> (db \<Rightarrow> error + int) \<Rightarrow> int \<Rightarrow> int \<Rightarrow> CACHE \<Rightarrow> (error + int) \<times> CACHE" where
  "getCachedSystemStat d statKey queryFn now now' c =
     (case (case Map_get statKey (systemStats c) of
              Some cached \<Rightarrow>
                if now - timestamp cached < CACHE_TTL_systemStats then Some (val cached) else None
            | None \<Rightarrow> None) of
        Some hit \<Rightarrow> (Inr hit, c)
      | None \<Rightarrow>
          (case queryFn d of
             Inl e \<Rightarrow> (Inl e, c)
           | Inr v \<Rightarrow>
               (Inr v,
                c\<lparr>systemStats :=
                    Map_set statKey \<lparr>val = v, timestamp = now'\<rparr> (systemStats c)\<rparr>)))"

text \<open>\<open>invalidateSystemStatCache\<close>: without a key (or with the empty one) the whole map is cleared.\<close>

definition invalidateSystemStatCache :: "string option \<Rightarrow> CACHE \<Rightarrow> CACHE" where
  "invalidateSystemStatCache statKey c =
     (case statKey of
        Some k \<Rightarrow> (if k \<noteq> [] then c\<lparr>systemStats := Map_delete k (systemStats c)\<rparr>
                   else c\<lparr>systemStats := []\<rparr>)
      | None \<Rightarrow> c\<lparr>systemStats := []\<rparr>)"

subsection \<open>Clearing\<close>

text \<open>
  One loop of \<open>clearExpiredCache\<close>: \<open>for (const [key, value] of map.entries())\<close> visits
  the entries in order and deletes the key of each entry older than the time-to-live.  The
  first argument is the part of the map still to visit, the second the map itself.
\<close>

fun sweepExpired ::
  "int \<Rightarrow> int \<Rightarrow> ('k \<times> 'a entry) list \<Rightarrow> ('k, 'a entry) jsmap \<Rightarrow> ('k, 'a entry) jsmap" where
  "sweepExpired now ttl [] m = m"
| "sweepExpired now ttl ((key, value) # rest) m =
     sweepExpired now ttl rest
       (if now - timestamp value > ttl then Map_delete key m else m)"

text \<open>
  \<open>clearExpiredCache\<close>: nothing happens before the interval since \<open>lastClearTime\<close> has
  passed; otherwise \<open>lastClearTime\<close> is set and three loops run, over the mailbox ids, the
  user quotas and the system statistics.
\<close>

definition clearExpiredCache :: "int \<Rightarrow> CACHE \<Rightarrow> CACHE" where
  "clearExpiredCache now c =
     (if now - lastClearTime c < CACHE_TTL_clearInterval then c
      else c\<lparr>lastClearTime := now,
             mailboxIds := sweepExpired now CACHE_TTL_mailboxId (mailboxIds c) (mailboxIds c),
             userQuotas := sweepExpired now CACHE_TTL_userQuota (userQuotas c) (userQuotas c),
             systemStats := sweepExpired now CACHE_TTL_systemStats (systemStats c) (systemStats c)\<rparr>)"

definition clearAllCache :: "int \<Rightarrow> CACHE \<Rightarrow> CACHE" where
  "clearAllCache now c =
     \<lparr>tableStructures = [], mailboxIds = [], userQuotas = [], systemStats = [],
      lastClearTime = now\<rparr>"

subsection \<open>The bounded LRU cache\<close>

text \<open>
  \<open>class LRUCache\<close>: the recency order is the insertion order of the underlying \<open>Map\<close>,
  so a key is made most recent by deleting it and setting it again.
\<close>

record 'v LRUCache =
  capacity :: int
  ttl :: int
  cache :: "(string, 'v entry) jsmap"

definition LRUCache_new :: "int \<Rightarrow> int \<Rightarrow> 'v LRUCache" where
  "LRUCache_new cap t = \<lparr>capacity = cap, ttl = t, cache = []\<rparr>"

text \<open>
  \<open>get(key)\<close>: \<open>null\<close> (\<open>None\<close>) for a missing key; an item older than \<open>ttl\<close> is deleted and
  \<open>null\<close> returned; otherwise the item is moved to the end and its value returned.
\<close>

definition LRU_get :: "string \<Rightarrow> int \<Rightarrow> 'v LRUCache \<Rightarrow> 'v option \<times> 'v LRUCache" where
  "LRU_get key now l =
     (if \<not> Map_has key (cache l) then (None, l)
      else
        (case Map_get key (cache l) of
           None \<Rightarrow> (None, l)
         | Some item \<Rightarrow>
             if now - timestamp item > ttl l
             then (None, l\<lparr>cache := Map_delete key (cache l)\<rparr>)
             else (Some (val item), l\<lparr>cache := Map_set key item (Map_delete key (cache l))\<rparr>)))"

text \<open>
  \<open>set(key, value)\<close>: a present key is deleted first; then, if the size has reached the
  capacity, the first key of the map is deleted (\<open>keys().next().value\<close> is \<open>undefined\<close> on
  an empty map, and deleting it does nothing); then the new item is set.
\<close>

definition LRU_set :: "string \<Rightarrow> 'v \<Rightarrow> int \<Rightarrow> 'v LRUCache \<Rightarrow> 'v LRUCache" where
  "LRU_set key value now l =
     (let m1 = (if Map_has key (cache l) then Map_delete key (cache l) else cache l);
          m2 = (if Map_size m1 \<ge> capacity l
                then (case Map_keys m1 of [] \<Rightarrow> m1 | firstKey # _ \<Rightarrow> Map_delete firstKey m1)
                else m1)
      in l\<lparr>cache := Map_set key \<lparr>val = value, timestamp = now\<rparr> m2\<rparr>)"

definition LRU_delete :: "string \<Rightarrow> 'v LRUCache \<Rightarrow> 'v LRUCache" where
  "LRU_delete key l = l\<lparr>cache := Map_delete key (cache l)\<rparr>"

definition LRU_clear :: "'v LRUCache \<Rightarrow> 'v LRUCache" where
  "LRU_clear l = l\<lparr>cache := []\<rparr>"

definition LRU_size :: "'v LRUCache \<Rightarrow> int" where
  "LRU_size l = Map_size (cache l)"

text \<open>
  A history of calls on one store, each with the clock reading it sees, run from left to
  right.
\<close>

datatype 'v lru_call = Get string int | Set string 'v int

fun LRU_call :: "'v lru_call \<Rightarrow> 'v LRUCache \<Rightarrow> 'v LRUCache" where
  "LRU_call (Get key now) l = snd (LRU_get key now l)"
| "LRU_call (Set key value now) l = LRU_set key value now l"

fun LRU_run :: "'v lru_call list \<Rightarrow> 'v LRUCache \<Rightarrow> 'v LRUCache" where
  "LRU_run [] l = l"
| "LRU_run (call # calls) l = LRU_run calls (LRU_call call l)"

text \<open>
  The specification's reading of recency, kept beside the store: a counter of calls and,
  for every key, the number of the last call that touched it.  Every call touches its
  key, a read (\<open>get\<close>) as well as a write (\<open>set\<close>).
\<close>

record touches =
  calls_made :: nat
  last_touch :: "string \<Rightarrow> nat"

definition touches_new :: touches where
  "touches_new = \<lparr>calls_made = 0, last_touch = (\<lambda>_. 0)\<rparr>"

fun call_key :: "'v lru_call \<Rightarrow> string" where
  "call_key (Get key now) = key"
| "call_key (Set key value now) = key"

definition record_touch :: "'v lru_call \<Rightarrow> touches \<Rightarrow> touches" where
  "record_touch call t =
     (let n = Suc (calls_made t) in
      \<lparr>calls_made = n, last_touch = (last_touch t)(call_key call := n)\<rparr>)"

fun LRU_run_touches :: "'v lru_call list \<Rightarrow> 'v LRUCache \<times> touches \<Rightarrow> 'v LRUCache \<times> touches" where
  "LRU_run_touches [] s = s"
| "LRU_run_touches (call # calls) (l, t) =
     LRU_run_touches calls (LRU_call call l, record_touch call t)"

definition emailContentCache :: "'v LRUCache" where
  "emailContentCache = LRUCache_new 1000 3600000"

definition cacheEmailContent :: "string \<Rightarrow> 'v \<Rightarrow> int \<Rightarrow> 'v LRUCache \<Rightarrow> 'v LRUCache" where
  "cacheEmailContent emailId content now l = LRU_set (''email_content_'' @ emailId) content now l"

definition getCachedEmailContent :: "string \<Rightarrow> int \<Rightarrow> 'v LRUCache \<Rightarrow> 'v option \<times> 'v LRUCache" where
  "getCachedEmailContent emailId now l = LRU_get (''email_content_'' @ emailId) now l"

definition invalidateEmailContentCache :: "string \<Rightarrow> 'v LRUCache \<Rightarrow> 'v LRUCache" where
  "invalidateEmailContentCache emailId l = LRU_delete (''email_content_'' @ emailId) l"

subsection \<open>Observing the cleanup gate\<close>

text \<open>
  \<open>sweep_runs ts c\<close> counts, over successive calls of \<open>clearExpiredCache\<close> at the times
  \<open>ts\<close>, the calls that get past the interval test and run the loops.
\<close>

fun sweep_runs :: "int list \<Rightarrow> CACHE \<Rightarrow> nat" where
  "sweep_runs [] c = 0"
| "sweep_runs (now # ts) c =
     (if now - lastClearTime c < CACHE_TTL_clearInterval then 0 else 1)
       + sweep_runs ts (clearExpiredCache now c)"

subsection \<open>Sample states\<close>

text \<open>
  A cache last cleaned at time 0 that holds, in every map, one entry stored at time 0 and
  (but for the table structures) one stored at time 7000000.
\<close>

definition sample_cols :: "column list" where
  "sample_cols = [\<lparr>name = ''id'', type = ''INTEGER'', notnull = 1, dflt_value = None\<rparr>]"

definition sample_cache :: CACHE where
  "sample_cache =
     \<lparr>tableStructures = [(''mailboxes'', \<lparr>val = sample_cols, timestamp = 0\<rparr>)],
      mailboxIds = [(''a@x.com'', \<lparr>val = Some 1, timestamp = 0\<rparr>),
                    (''b@x.com'', \<lparr>val = None, timestamp = 7000000\<rparr>)],
      userQuotas = [(1, \<lparr>val = \<lparr>used = 2, limit = 10\<rparr>, timestamp = 0\<rparr>),
                    (2, \<lparr>val = \<lparr>used = 0, limit = 10\<rparr>, timestamp = 7000000\<rparr>)],
      systemStats = [(''total_mailboxes'', \<lparr>val = 5, timestamp = 0\<rparr>),
                     (''total_messages'', \<lparr>val = 9, timestamp = 7000000\<rparr>)],
      lastClearTime = 0\<rparr>"

text \<open>
  The two builtins on strings of the code units 0 to 255, which is what the characters of
  \<open>string\<close> stand for.  Among these \<open>trim\<close> removes tab, line feed, vertical tab, form
  feed, carriage return, space and no-break space (160); \<open>toLowerCase\<close> adds 32 to
  \<open>A\<close>..\<open>Z\<close> (65 to 90) and to the capital letters 192 to 222 but for the multiplication
  sign (215), and leaves every other code unit.
\<close>

definition latin1_isWhiteSpace :: "char \<Rightarrow> bool" where
  "latin1_isWhiteSpace ch = (of_char ch \<in> {9, 10, 11, 12, 13, 32, 160 :: nat})"

definition latin1_trim :: "string \<Rightarrow> string" where
  "latin1_trim s = rev (dropWhile latin1_isWhiteSpace (rev (dropWhile latin1_isWhiteSpace s)))"

definition latin1_lowerChar :: "char \<Rightarrow> char" where
  "latin1_lowerChar ch =
     (let u = (of_char ch :: nat) in
      if (65 \<le> u \<and> u \<le> 90) \<or> (192 \<le> u \<and> u \<le> 222 \<and> u \<noteq> 215)
      then char_of (u + 32) else ch)"

definition latin1_toLowerCase :: "string \<Rightarrow> string" where
  "latin1_toLowerCase s = map latin1_lowerChar s"

definition latin1 :: String_prototype where
  "latin1 = \<lparr>trim = latin1_trim, toLowerCase = latin1_toLowerCase\<rparr>"

text \<open>The cache as the module creates it, at the clock reading \<open>now\<close>.\<close>

definition CACHE_init :: "int \<Rightarrow> CACHE" where
  "CACHE_init now =
     \<lparr>tableStructures = [], mailboxIds = [], userQuotas = [], systemStats = [],
      lastClearTime = now\<rparr>"

text \<open>A database on which every statement throws, and one with a few rows.\<close>

definition failing_db :: db where
  "failing_db =
     \<lparr>table_info = (\<lambda>_. Inl (Thrown ''D1_ERROR'')),
      select_mailbox_id = (\<lambda>_. Inl (Thrown ''D1_ERROR'')),
      select_mailbox_limit = (\<lambda>_. Inl (Thrown ''D1_ERROR'')),
      count_user_mailboxes = (\<lambda>_. Inl (Thrown ''D1_ERROR''))\<rparr>"

definition sample_db :: db where
  "sample_db =
     \<lparr>table_info = (\<lambda>_. Inr [\<lparr>name = ''address'', type = ''TEXT'', notnull = 5, dflt_value = None\<rparr>]),
      select_mailbox_id = (\<lambda>a. Inr (if a = ''a@x.com'' then [7] else [])),
      select_mailbox_limit = (\<lambda>u. Inr (if u = 1 then [Some 20] else [])),
      count_user_mailboxes = (\<lambda>u. Inr [3])\<rparr>"

subsection \<open>Notions used in the statements\<close>

text \<open>
  \<open>no_fresh t now cached\<close>: the test \<open>cached && (now - cached.timestamp) < t\<close> of a
  get-or-load fails, because there is no entry or because it is too old.
\<close>

definition no_fresh :: "int \<Rightarrow> int \<Rightarrow> 'a entry option \<Rightarrow> bool" where
  "no_fresh t now cached =
     (case cached of None \<Rightarrow> True | Some e \<Rightarrow> \<not> now - timestamp e < t)"

text \<open>Any history of calls of the exported functions on the global cache.\<close>

datatype cache_call =
    GetTableStructure db string int int
  | GetMailboxId db "string option" int int
  | UpdateMailboxId "string option" "int option" int
  | InvalidateMailbox "string option"
  | GetUserQuota db int int int
  | InvalidateUserQuota int
  | GetSystemStat db string "db \<Rightarrow> error + int" int int
  | InvalidateSystemStat "string option"
  | ClearExpired int
  | ClearAll int

fun CACHE_call :: "String_prototype \<Rightarrow> cache_call \<Rightarrow> CACHE \<Rightarrow> CACHE" where
  "CACHE_call sp (GetTableStructure d tableName now now') c =
     snd (getCachedTableStructure d tableName now now' c)"
| "CACHE_call sp (GetMailboxId d address now now') c =
     snd (getCachedMailboxId sp d address now now' c)"
| "CACHE_call sp (UpdateMailboxId address i now) c = updateMailboxIdCache sp address i now c"
| "CACHE_call sp (InvalidateMailbox address) c = invalidateMailboxCache sp address c"
| "CACHE_call sp (GetUserQuota d userId now now') c = snd (getCachedUserQuota d userId now now' c)"
| "CACHE_call sp (InvalidateUserQuota userId) c = invalidateUserQuotaCache userId c"
| "CACHE_call sp (GetSystemStat d statKey queryFn now now') c =
     snd (getCachedSystemStat d statKey queryFn now now' c)"
| "CACHE_call sp (InvalidateSystemStat statKey) c = invalidateSystemStatCache statKey c"
| "CACHE_call sp (ClearExpired now) c = clearExpiredCache now c"
| "CACHE_call sp (ClearAll now) c = clearAllCache now c"

fun CACHE_run :: "String_prototype \<Rightarrow> cache_call list \<Rightarrow> CACHE \<Rightarrow> CACHE" where
  "CACHE_run sp [] c = c"
| "CACHE_run sp (call # calls) c = CACHE_run sp calls (CACHE_call sp call c)"

text \<open>A store of capacity 3 that is full.\<close>

definition sample_lru :: "int LRUCache" where
  "sample_lru =
     \<lparr>capacity = 3, ttl = 1000,
      cache = [(''1'', \<lparr>val = 10, timestamp = 0\<rparr>), (''2'', \<lparr>val = 20, timestamp = 1\<rparr>),
               (''3'', \<lparr>val = 30, timestamp = 2\<rparr>)]\<rparr>"

subsection \<open>Invariants of the LRU store\<close>

text \<open>The map holds no key twice and no more entries than the capacity.\<close>

definition LRU_inv :: "'v LRUCache \<Rightarrow> bool" where
  "LRU_inv l = (Map_wf (cache l) \<and> Map_size (cache l) \<le> capacity l)"

text \<open>
  The keys stand in the map in the order of their last touch, oldest first, and no key
  was touched after the last call.
\<close>

definition recency_inv :: "'v LRUCache \<Rightarrow> touches \<Rightarrow> bool" where
  "recency_inv l t =
     (sorted_wrt (\<lambda>a b. last_touch t a < last_touch t b) (Map_keys (cache l))
      \<and> (\<forall>k \<in> set (Map_keys (cache l)). last_touch t k \<le> calls_made t))"

section \<open>Facts about the Map model\<close>

lemma Map_get_set: "Map_get k' (Map_set k v m) = (if k' = k then Some v else Map_get k' m)"
  by (induction m) auto

lemma Map_get_delete: "Map_get k' (Map_delete k m) = (if k' = k then None else Map_get k' m)"
  by (induction m) auto

lemma Map_delete_filter: "Map_delete k m = filter (\<lambda>p. fst p \<noteq> k) m"
  by (induction m) auto

lemma Map_keys_delete: "Map_keys (Map_delete k m) = filter (\<lambda>k'. k' \<noteq> k) (Map_keys m)"
  by (induction m) (auto simp: Map_keys_def)

lemma Map_get_None_iff: "Map_get k m = None \<longleftrightarrow> k \<notin> set (Map_keys m)"
  by (induction m) (force simp: Map_keys_def split: if_splits)+

lemma Map_keys_set_new: "k \<notin> set (Map_keys m) \<Longrightarrow> Map_keys (Map_set k v m) = Map_keys m @ [k]"
  by (induction m) (auto simp: Map_keys_def)

lemma Map_keys_set_old: "k \<in> set (Map_keys m) \<Longrightarrow> Map_keys (Map_set k v m) = Map_keys m"
  by (induction m) (force simp: Map_keys_def)+

lemma Map_set_new: "k \<notin> set (Map_keys m) \<Longrightarrow> Map_set k v m = m @ [(k, v)]"
  by (induction m) (auto simp: Map_keys_def)

lemma Map_delete_absent: "k \<notin> set (Map_keys m) \<Longrightarrow> Map_delete k m = m"
  by (induction m) (auto simp: Map_keys_def)

lemma Map_wf_delete: "Map_wf m \<Longrightarrow> Map_wf (Map_delete k m)"
  by (simp add: Map_wf_def Map_keys_delete)

lemma Map_wf_set: "Map_wf m \<Longrightarrow> Map_wf (Map_set k v m)"
  by (cases "k \<in> set (Map_keys m)") (simp_all add: Map_wf_def Map_keys_set_new Map_keys_set_old)

lemma Map_get_Some_iff: "Map_wf m \<Longrightarrow> Map_get k m = Some v \<longleftrightarrow> (k, v) \<in> set m"
  by (induction m) (force simp: Map_wf_def Map_keys_def split: if_splits)+

lemma Map_size_delete_present:
  "Map_wf m \<Longrightarrow> k \<in> set (Map_keys m) \<Longrightarrow> Map_size (Map_delete k m) = Map_size m - 1"
proof (induction m)
  case Nil
  then show ?case by (simp add: Map_keys_def)
next
  case (Cons p m)
  show ?case
  proof (cases "fst p = k")
    case True
    with Cons.prems have "k \<notin> set (Map_keys m)" by (simp add: Map_wf_def Map_keys_def)
    then have "Map_delete k m = m" by (rule Map_delete_absent)
    with True show ?thesis by (cases p) (simp add: Map_size_def)
  next
    case False
    with Cons.prems have "Map_wf m" "k \<in> set (Map_keys m)" by (auto simp: Map_wf_def Map_keys_def)
    then have "Map_size (Map_delete k m) = Map_size m - 1" by (rule Cons.IH)
    moreover from \<open>k \<in> set (Map_keys m)\<close> have "m \<noteq> []" by (auto simp: Map_keys_def)
    ultimately show ?thesis using False by (cases p) (auto simp: Map_size_def)
  qed
qed

lemma Map_size_set_new: "k \<notin> set (Map_keys m) \<Longrightarrow> Map_size (Map_set k v m) = Map_size m + 1"
  by (simp add: Map_set_new Map_size_def)

lemma Map_size_delete_le: "Map_size (Map_delete k m) \<le> Map_size m"
  by (simp add: Map_delete_filter Map_size_def)

lemma Map_wf_unique: "Map_wf m \<Longrightarrow> x \<in> set m \<Longrightarrow> y \<in> set m \<Longrightarrow> fst x = fst y \<Longrightarrow> x = y"
  unfolding Map_wf_def Map_keys_def by (metis eq_key_imp_eq_value prod.collapse)

lemma Map_wf_filter: "Map_wf m \<Longrightarrow> Map_wf (filter P m)"
  by (simp add: Map_wf_def Map_keys_def distinct_map_filter)

lemma Map_get_filter:
  "Map_wf m \<Longrightarrow> Map_get k (filter P m) =
     (case Map_get k m of None \<Rightarrow> None | Some v \<Rightarrow> if P (k, v) then Some v else None)"
proof (induction m)
  case Nil then show ?case by simp
next
  case (Cons p m)
  obtain k' v' where p: "p = (k', v')" by (cases p)
  from Cons.prems have wf: "Map_wf m" and nin: "k' \<notin> set (Map_keys m)"
    by (simp_all add: Map_wf_def Map_keys_def p)
  from nin have "k' \<notin> set (Map_keys (filter P m))"
    by (auto simp: Map_keys_def)
  then have "Map_get k' (filter P m) = None" "Map_get k' m = None"
    using nin by (simp_all add: Map_get_None_iff)
  then show ?case using Cons.IH [OF wf] by (auto simp: p)
qed

section \<open>The expiry loop\<close>

text \<open>
  Each visited entry that is too old has its key deleted from the map; the loop as a
  whole keeps the entries whose key was not deleted on the way.
\<close>

lemma sweepExpired_filter_gen:
  "sweepExpired now t rest m =
     filter (\<lambda>p. \<not> (\<exists>y \<in> set rest. fst y = fst p \<and> now - timestamp (snd y) > t)) m"
proof (induction rest arbitrary: m)
  case Nil
  then show ?case by simp
next
  case (Cons x rest)
  obtain key v where x: "x = (key, v)" by (cases x)
  show ?case
    by (auto simp: x Cons.IH Map_delete_filter intro!: filter_cong)
qed

text \<open>On a map without repeated keys the loop is a filter on the age of each entry.\<close>

lemma sweepExpired_filter:
  assumes "Map_wf m"
  shows "sweepExpired now t m m = filter (\<lambda>p. \<not> now - timestamp (snd p) > t) m"
  unfolding sweepExpired_filter_gen
  by (rule filter_cong [OF refl]) (use assms Map_wf_unique in blast)

section \<open>Claims about the cleanup\<close>

text \<open>
  C2 (as amended).  When the interval test lets the cleanup run on a cache whose maps hold
  no key twice, the mailbox ids, the user quotas and the system statistics each keep
  exactly their entries whose age does not exceed the map's time-to-live, in their order,
  and lose every older one; the table structures are left as they are, whatever their age.
\<close>

theorem clearExpiredCache_sweeps_three_of_four:
  assumes "CACHE_wf c" and "\<not> now - lastClearTime c < CACHE_TTL_clearInterval"
  shows "mailboxIds (clearExpiredCache now c) =
           filter (\<lambda>p. \<not> now - timestamp (snd p) > CACHE_TTL_mailboxId) (mailboxIds c)
       \<and> userQuotas (clearExpiredCache now c) =
           filter (\<lambda>p. \<not> now - timestamp (snd p) > CACHE_TTL_userQuota) (userQuotas c)
       \<and> systemStats (clearExpiredCache now c) =
           filter (\<lambda>p. \<not> now - timestamp (snd p) > CACHE_TTL_systemStats) (systemStats c)
       \<and> tableStructures (clearExpiredCache now c) = tableStructures c"
  using assms by (simp add: clearExpiredCache_def CACHE_wf_def sweepExpired_filter)

theorem clearExpiredCache_sweeps_three_of_four_witness:
  "CACHE_wf sample_cache \<and> \<not> 7200000 - lastClearTime sample_cache < CACHE_TTL_clearInterval
   \<and> mailboxIds (clearExpiredCache 7200000 sample_cache) =
        [(''b@x.com'', \<lparr>val = None, timestamp = 7000000\<rparr>)]
   \<and> userQuotas (clearExpiredCache 7200000 sample_cache) =
        [(2, \<lparr>val = \<lparr>used = 0, limit = 10\<rparr>, timestamp = 7000000\<rparr>)]
   \<and> systemStats (clearExpiredCache 7200000 sample_cache) =
        [(''total_messages'', \<lparr>val = 9, timestamp = 7000000\<rparr>)]
   \<and> tableStructures (clearExpiredCache 7200000 sample_cache) =
        [(''mailboxes'', \<lparr>val = sample_cols, timestamp = 0\<rparr>)]"
proof -
  have wf: "CACHE_wf sample_cache"
    by (simp add: CACHE_wf_def Map_wf_def Map_keys_def sample_cache_def)
  have due: "\<not> 7200000 - lastClearTime sample_cache < CACHE_TTL_clearInterval"
    by (simp add: sample_cache_def CACHE_TTL_clearInterval_def)
  show ?thesis
    using clearExpiredCache_sweeps_three_of_four [OF wf due] wf due
    by (simp add: sample_cache_def CACHE_TTL_mailboxId_def CACHE_TTL_userQuota_def
        CACHE_TTL_systemStats_def)
qed

theorem sweep_skips_table_structures_counterexample:
  "\<not> 7200000 - lastClearTime sample_cache < CACHE_TTL_clearInterval
   \<and> Map_get ''mailboxes'' (tableStructures sample_cache) = Some \<lparr>val = sample_cols, timestamp = 0\<rparr>
   \<and> 7200000 - 0 > CACHE_TTL_tableStructure
   \<and> Map_get ''mailboxes'' (tableStructures (clearExpiredCache 7200000 sample_cache))
        = Some \<lparr>val = sample_cols, timestamp = 0\<rparr>"
  by (simp add: sample_cache_def clearExpiredCache_def CACHE_TTL_clearInterval_def
      CACHE_TTL_tableStructure_def)

text \<open>
  C6 (as amended).  Two calls of the cleanup at times \<open>t1\<close> and \<open>t2\<close> with
  \<open>t2 - t1\<close> below the interval run the loops at most once between them; when the call at
  \<open>t1\<close> ran them (so that \<open>lastClearTime\<close> became \<open>t1\<close>), the call at \<open>t2\<close> changes
  nothing.  A call at a time \<open>t3\<close> with \<open>t3 - lastClearTime\<close> at least the interval sets
  \<open>lastClearTime\<close> to \<open>t3\<close> and runs the three loops.
\<close>

theorem clearExpiredCache_at_most_once_per_interval:
  "(t2 - t1 < CACHE_TTL_clearInterval \<longrightarrow>
      sweep_runs [t1, t2] c \<le> 1
    \<and> (\<not> t1 - lastClearTime c < CACHE_TTL_clearInterval \<longrightarrow>
          lastClearTime (clearExpiredCache t1 c) = t1
        \<and> clearExpiredCache t2 (clearExpiredCache t1 c) = clearExpiredCache t1 c))
   \<and> (t3 - lastClearTime c \<ge> CACHE_TTL_clearInterval \<longrightarrow>
        sweep_runs [t3] c = 1
      \<and> lastClearTime (clearExpiredCache t3 c) = t3
      \<and> mailboxIds (clearExpiredCache t3 c) =
          sweepExpired t3 CACHE_TTL_mailboxId (mailboxIds c) (mailboxIds c)
      \<and> userQuotas (clearExpiredCache t3 c) =
          sweepExpired t3 CACHE_TTL_userQuota (userQuotas c) (userQuotas c)
      \<and> systemStats (clearExpiredCache t3 c) =
          sweepExpired t3 CACHE_TTL_systemStats (systemStats c) (systemStats c))"
proof (intro conjI impI)
  assume near: "t2 - t1 < CACHE_TTL_clearInterval"
  show "sweep_runs [t1, t2] c \<le> 1"
  proof (cases "t1 - lastClearTime c < CACHE_TTL_clearInterval")
    case True
    then show ?thesis by (simp add: clearExpiredCache_def)
  next
    case False
    then have "lastClearTime (clearExpiredCache t1 c) = t1"
      by (simp add: clearExpiredCache_def)
    with near False show ?thesis by simp
  qed
  assume ran: "\<not> t1 - lastClearTime c < CACHE_TTL_clearInterval"
  then show stamp: "lastClearTime (clearExpiredCache t1 c) = t1"
    by (simp add: clearExpiredCache_def)
  with near show "clearExpiredCache t2 (clearExpiredCache t1 c) = clearExpiredCache t1 c"
    by (simp add: clearExpiredCache_def [of t2])
next
  assume due: "t3 - lastClearTime c \<ge> CACHE_TTL_clearInterval"
  then show "sweep_runs [t3] c = 1" by simp
  from due show "lastClearTime (clearExpiredCache t3 c) = t3"
    and "mailboxIds (clearExpiredCache t3 c) =
          sweepExpired t3 CACHE_TTL_mailboxId (mailboxIds c) (mailboxIds c)"
    and "userQuotas (clearExpiredCache t3 c) =
          sweepExpired t3 CACHE_TTL_userQuota (userQuotas c) (userQuotas c)"
    and "systemStats (clearExpiredCache t3 c) =
          sweepExpired t3 CACHE_TTL_systemStats (systemStats c) (systemStats c)"
    by (simp_all add: clearExpiredCache_def)
qed

theorem clearExpiredCache_at_most_once_per_interval_witness:
  "1800001 - 1800000 < CACHE_TTL_clearInterval
   \<and> \<not> 1800000 - lastClearTime sample_cache < CACHE_TTL_clearInterval
   \<and> sweep_runs [1800000, 1800001] sample_cache \<le> 1
   \<and> lastClearTime (clearExpiredCache 1800000 sample_cache) = 1800000
   \<and> clearExpiredCache 1800001 (clearExpiredCache 1800000 sample_cache)
       = clearExpiredCache 1800000 sample_cache
   \<and> 3600000 - lastClearTime (clearExpiredCache 1800000 sample_cache) \<ge> CACHE_TTL_clearInterval
   \<and> sweep_runs [3600000] (clearExpiredCache 1800000 sample_cache) = 1
   \<and> lastClearTime (clearExpiredCache 3600000 (clearExpiredCache 1800000 sample_cache)) = 3600000"
proof -
  have a: "(1800001::int) - 1800000 < CACHE_TTL_clearInterval"
    by (simp add: CACHE_TTL_clearInterval_def)
  have b: "\<not> 1800000 - lastClearTime sample_cache < CACHE_TTL_clearInterval"
    by (simp add: CACHE_TTL_clearInterval_def sample_cache_def)
  have l: "lastClearTime (clearExpiredCache 1800000 sample_cache) = 1800000"
    using b by (simp add: clearExpiredCache_def)
  have d: "3600000 - lastClearTime (clearExpiredCache 1800000 sample_cache) \<ge> CACHE_TTL_clearInterval"
    by (simp add: l CACHE_TTL_clearInterval_def)
  from clearExpiredCache_at_most_once_per_interval [of 1800001 1800000 sample_cache 0] a b
  have first: "sweep_runs [1800000, 1800001] sample_cache \<le> 1
    \<and> clearExpiredCache 1800001 (clearExpiredCache 1800000 sample_cache)
       = clearExpiredCache 1800000 sample_cache"
    by blast
  from clearExpiredCache_at_most_once_per_interval
    [of 0 0 "clearExpiredCache 1800000 sample_cache" 3600000] d
  have again: "sweep_runs [3600000] (clearExpiredCache 1800000 sample_cache) = 1
    \<and> lastClearTime (clearExpiredCache 3600000 (clearExpiredCache 1800000 sample_cache)) = 3600000"
    by blast
  from a b l d first again show ?thesis by blast
qed

theorem second_call_within_interval_sweeps_counterexample:
  "1800000 - 1000 < CACHE_TTL_clearInterval
   \<and> clearExpiredCache 1000 sample_cache = sample_cache
   \<and> clearExpiredCache 1800000 (clearExpiredCache 1000 sample_cache) \<noteq> clearExpiredCache 1000 sample_cache
   \<and> lastClearTime (clearExpiredCache 1800000 (clearExpiredCache 1000 sample_cache)) = 1800000
   \<and> mailboxIds (clearExpiredCache 1800000 (clearExpiredCache 1000 sample_cache))
       = [(''b@x.com'', \<lparr>val = None, timestamp = 7000000\<rparr>)]"
proof -
  have n: "clearExpiredCache 1000 sample_cache = sample_cache"
    by (simp add: clearExpiredCache_def sample_cache_def CACHE_TTL_clearInterval_def)
  have l: "lastClearTime (clearExpiredCache 1800000 sample_cache) = 1800000"
    by (simp add: clearExpiredCache_def sample_cache_def CACHE_TTL_clearInterval_def)
  have m: "mailboxIds (clearExpiredCache 1800000 sample_cache)
       = [(''b@x.com'', \<lparr>val = None, timestamp = 7000000\<rparr>)]"
    by (simp add: clearExpiredCache_def sample_cache_def CACHE_TTL_clearInterval_def
        CACHE_TTL_mailboxId_def)
  have "lastClearTime sample_cache = 0" by (simp add: sample_cache_def)
  with l have "clearExpiredCache 1800000 sample_cache \<noteq> sample_cache" by auto
  with n l m show ?thesis by (simp add: CACHE_TTL_clearInterval_def)
qed

section \<open>The four get-or-load functions, case by case\<close>

subsection \<open>A fresh entry is returned and nothing else happens\<close>

lemma getCachedTableStructure_fresh:
  assumes "Map_get tableName (tableStructures c) = Some cached"
    and "now - timestamp cached < CACHE_TTL_tableStructure"
  shows "getCachedTableStructure d tableName now now' c = (Inr (val cached), c)"
  using assms by (simp add: getCachedTableStructure_def)

lemma getCachedMailboxId_fresh:
  assumes "normalized sp address \<noteq> []"
    and "Map_get (normalized sp address) (mailboxIds c) = Some cached"
    and "now - timestamp cached < CACHE_TTL_mailboxId"
  shows "getCachedMailboxId sp d address now now' c = (Inr (val cached), c)"
  using assms by (simp add: getCachedMailboxId_def)

lemma getCachedUserQuota_fresh:
  assumes "Map_get userId (userQuotas c) = Some cached"
    and "now - timestamp cached < CACHE_TTL_userQuota"
  shows "getCachedUserQuota d userId now now' c = (Inr (val cached), c)"
  using assms by (simp add: getCachedUserQuota_def)

lemma getCachedSystemStat_fresh:
  assumes "Map_get statKey (systemStats c) = Some cached"
    and "now - timestamp cached < CACHE_TTL_systemStats"
  shows "getCachedSystemStat d statKey queryFn now now' c = (Inr (val cached), c)"
  using assms by (simp add: getCachedSystemStat_def)

subsection \<open>Without a fresh entry the loader decides\<close>

lemma getCachedTableStructure_load:
  assumes "no_fresh CACHE_TTL_tableStructure now (Map_get tableName (tableStructures c))"
  shows "getCachedTableStructure d tableName now now' c =
     (case table_info d tableName of
        Inl e \<Rightarrow> (Inr [], c)
      | Inr rows \<Rightarrow>
          (Inr (table_cols rows),
           c\<lparr>tableStructures :=
               Map_set tableName \<lparr>val = table_cols rows, timestamp = now'\<rparr> (tableStructures c)\<rparr>))"
  using assms
  by (auto simp: getCachedTableStructure_def no_fresh_def Let_def split: option.splits sum.splits)

lemma getCachedMailboxId_load:
  assumes "normalized sp address \<noteq> []"
    and "no_fresh CACHE_TTL_mailboxId now (Map_get (normalized sp address) (mailboxIds c))"
  shows "getCachedMailboxId sp d address now now' c =
     (case select_mailbox_id d (normalized sp address) of
        Inl e \<Rightarrow> (Inl e, c)
      | Inr rows \<Rightarrow>
          (Inr (case rows of [] \<Rightarrow> None | r # _ \<Rightarrow> Some r),
           c\<lparr>mailboxIds :=
               Map_set (normalized sp address)
                 \<lparr>val = (case rows of [] \<Rightarrow> None | r # _ \<Rightarrow> Some r), timestamp = now'\<rparr>
                 (mailboxIds c)\<rparr>))"
  using assms
  by (auto simp: getCachedMailboxId_def no_fresh_def Let_def split: option.splits sum.splits)

lemma getCachedUserQuota_load:
  assumes "no_fresh CACHE_TTL_userQuota now (Map_get userId (userQuotas c))"
  shows "getCachedUserQuota d userId now now' c =
     (case select_mailbox_limit d userId of
        Inl e \<Rightarrow> (Inl e, c)
      | Inr urows \<Rightarrow>
          (case count_user_mailboxes d userId of
             Inl e \<Rightarrow> (Inl e, c)
           | Inr crows \<Rightarrow>
               (Inr \<lparr>used = (case crows of [] \<Rightarrow> 0 | r # _ \<Rightarrow> r),
                     limit = (case urows of Some l # _ \<Rightarrow> l | _ \<Rightarrow> 10)\<rparr>,
                c\<lparr>userQuotas :=
                    Map_set userId
                      \<lparr>val = \<lparr>used = (case crows of [] \<Rightarrow> 0 | r # _ \<Rightarrow> r),
                               limit = (case urows of Some l # _ \<Rightarrow> l | _ \<Rightarrow> 10)\<rparr>,
                       timestamp = now'\<rparr>
                      (userQuotas c)\<rparr>)))"
  using assms
  by (auto simp: getCachedUserQuota_def no_fresh_def Let_def split: option.splits sum.splits)

lemma getCachedSystemStat_load:
  assumes "no_fresh CACHE_TTL_systemStats now (Map_get statKey (systemStats c))"
  shows "getCachedSystemStat d statKey queryFn now now' c =
     (case queryFn d of
        Inl e \<Rightarrow> (Inl e, c)
      | Inr v \<Rightarrow>
          (Inr v,
           c\<lparr>systemStats := Map_set statKey \<lparr>val = v, timestamp = now'\<rparr> (systemStats c)\<rparr>))"
  using assms
  by (auto simp: getCachedSystemStat_def no_fresh_def Let_def split: option.splits sum.splits)

section \<open>Claims about the get-or-load functions\<close>

text \<open>
  C1 (as amended).  When there is no fresh entry and the query throws, the get-or-load of
  a mailbox id, of a user quota (either of its two queries) and of a system statistic
  returns the thrown error itself and leaves the cache as it was.  The get-or-load of a
  table structure catches the error instead: it returns the empty column list as its
  result, and also leaves the cache as it was.
\<close>

theorem loader_failure_propagates_except_table_structure:
  "(normalized sp address \<noteq> []
      \<and> no_fresh CACHE_TTL_mailboxId now (Map_get (normalized sp address) (mailboxIds c))
      \<and> select_mailbox_id d (normalized sp address) = Inl e
      \<longrightarrow> getCachedMailboxId sp d address now now' c = (Inl e, c))
   \<and> (no_fresh CACHE_TTL_userQuota now (Map_get userId (userQuotas c))
      \<and> select_mailbox_limit d userId = Inl e
      \<longrightarrow> getCachedUserQuota d userId now now' c = (Inl e, c))
   \<and> (no_fresh CACHE_TTL_userQuota now (Map_get userId (userQuotas c))
      \<and> select_mailbox_limit d userId = Inr urows \<and> count_user_mailboxes d userId = Inl e
      \<longrightarrow> getCachedUserQuota d userId now now' c = (Inl e, c))
   \<and> (no_fresh CACHE_TTL_systemStats now (Map_get statKey (systemStats c))
      \<and> queryFn d = Inl e
      \<longrightarrow> getCachedSystemStat d statKey queryFn now now' c = (Inl e, c))
   \<and> (no_fresh CACHE_TTL_tableStructure now (Map_get tableName (tableStructures c))
      \<and> table_info d tableName = Inl e
      \<longrightarrow> getCachedTableStructure d tableName now now' c = (Inr [], c))"
  by (simp add: getCachedMailboxId_load getCachedUserQuota_load getCachedSystemStat_load
      getCachedTableStructure_load)

theorem loader_failure_propagates_except_table_structure_witness:
  "getCachedMailboxId latin1 failing_db (Some ''a@x.com'') 700000 700001 sample_cache
     = (Inl (Thrown ''D1_ERROR''), sample_cache)
   \<and> getCachedUserQuota failing_db 1 700000 700001 sample_cache
     = (Inl (Thrown ''D1_ERROR''), sample_cache)
   \<and> getCachedUserQuota (sample_db\<lparr>count_user_mailboxes := (\<lambda>_. Inl (Thrown ''D1_ERROR''))\<rparr>)
        1 700000 700001 sample_cache
     = (Inl (Thrown ''D1_ERROR''), sample_cache)
   \<and> getCachedSystemStat failing_db ''total_mailboxes'' (\<lambda>_. Inl (Thrown ''D1_ERROR''))
        700000 700001 sample_cache
     = (Inl (Thrown ''D1_ERROR''), sample_cache)
   \<and> getCachedTableStructure failing_db ''mailboxes'' 3600000 3600001 sample_cache
     = (Inr [], sample_cache)"
proof -
  note inst = loader_failure_propagates_except_table_structure
    [where c = sample_cache and e = "Thrown ''D1_ERROR''" and address = "Some ''a@x.com''"
       and userId = 1 and statKey = "''total_mailboxes''" and tableName = "''mailboxes''"
       and queryFn = "\<lambda>_. Inl (Thrown ''D1_ERROR'')" and urows = "[Some 20]"]
  have n: "normalized latin1 (Some ''a@x.com'') = ''a@x.com''" by code_simp
  have 1: "getCachedMailboxId latin1 failing_db (Some ''a@x.com'') 700000 700001 sample_cache
     = (Inl (Thrown ''D1_ERROR''), sample_cache)"
    using inst [where d = failing_db and now = 700000 and now' = 700001]
    by (simp add: n no_fresh_def sample_cache_def failing_db_def CACHE_TTL_mailboxId_def)
  have 2: "getCachedUserQuota failing_db 1 700000 700001 sample_cache
     = (Inl (Thrown ''D1_ERROR''), sample_cache)"
    using inst [where d = failing_db and now = 700000 and now' = 700001]
    by (simp add: no_fresh_def sample_cache_def failing_db_def CACHE_TTL_userQuota_def)
  have 3: "getCachedUserQuota (sample_db\<lparr>count_user_mailboxes := (\<lambda>_. Inl (Thrown ''D1_ERROR''))\<rparr>)
        1 700000 700001 sample_cache
     = (Inl (Thrown ''D1_ERROR''), sample_cache)"
    using inst [where d = "sample_db\<lparr>count_user_mailboxes := (\<lambda>_. Inl (Thrown ''D1_ERROR''))\<rparr>"
        and now = 700000 and now' = 700001]
    by (simp add: no_fresh_def sample_cache_def sample_db_def CACHE_TTL_userQuota_def)
  have 4: "getCachedSystemStat failing_db ''total_mailboxes'' (\<lambda>_. Inl (Thrown ''D1_ERROR''))
        700000 700001 sample_cache
     = (Inl (Thrown ''D1_ERROR''), sample_cache)"
    using inst [where d = failing_db and now = 700000 and now' = 700001]
    by (simp add: no_fresh_def sample_cache_def CACHE_TTL_systemStats_def)
  have 5: "getCachedTableStructure failing_db ''mailboxes'' 3600000 3600001 sample_cache
     = (Inr [], sample_cache)"
    using inst [where d = failing_db and now = 3600000 and now' = 3600001]
    by (simp add: no_fresh_def sample_cache_def failing_db_def CACHE_TTL_tableStructure_def)
  from 1 2 3 4 5 show ?thesis by blast
qed

theorem table_structure_masks_loader_failure_counterexample:
  "table_info failing_db ''mailboxes'' = Inl (Thrown ''D1_ERROR'')
   \<and> Map_get ''mailboxes'' (tableStructures (CACHE_init 0)) = None
   \<and> getCachedTableStructure failing_db ''mailboxes'' 5 6 (CACHE_init 0) = (Inr [], CACHE_init 0)
   \<and> fst (getCachedTableStructure failing_db ''mailboxes'' 5 6 (CACHE_init 0))
        \<noteq> Inl (Thrown ''D1_ERROR'')"
  by (simp add: failing_db_def CACHE_init_def getCachedTableStructure_def)

text \<open>
  C8.  When the get-or-load of a mailbox id finds no fresh entry and the query finds no
  row, it returns \<open>null\<close> and stores it at the second clock reading \<open>now'\<close>; a second
  get-or-load of the same address at any time \<open>t1\<close> with \<open>t1 - now'\<close> below the
  time-to-live returns \<open>null\<close> again and leaves the cache as it is, whatever the database
  \<open>d'\<close> would answer or throw: the query is not run.
\<close>

theorem negative_result_is_cached:
  assumes "normalized sp address \<noteq> []"
    and "no_fresh CACHE_TTL_mailboxId now (Map_get (normalized sp address) (mailboxIds c))"
    and "select_mailbox_id d (normalized sp address) = Inr []"
    and "t1 - now' < CACHE_TTL_mailboxId"
  shows "fst (getCachedMailboxId sp d address now now' c) = Inr None
       \<and> Map_get (normalized sp address) (mailboxIds (snd (getCachedMailboxId sp d address now now' c)))
           = Some \<lparr>val = None, timestamp = now'\<rparr>
       \<and> getCachedMailboxId sp d' address t1 t1' (snd (getCachedMailboxId sp d address now now' c))
           = (Inr None, snd (getCachedMailboxId sp d address now now' c))"
proof -
  let ?c1 = "snd (getCachedMailboxId sp d address now now' c)"
  have first: "getCachedMailboxId sp d address now now' c =
      (Inr None, c\<lparr>mailboxIds :=
          Map_set (normalized sp address) \<lparr>val = None, timestamp = now'\<rparr> (mailboxIds c)\<rparr>)"
    using assms(1-3) by (simp add: getCachedMailboxId_load)
  then have stored: "Map_get (normalized sp address) (mailboxIds ?c1)
      = Some \<lparr>val = None, timestamp = now'\<rparr>"
    by (simp add: Map_get_set)
  have "getCachedMailboxId sp d' address t1 t1' ?c1 = (Inr (val \<lparr>val = None, timestamp = now'\<rparr>), ?c1)"
    using assms(1) stored assms(4) by (intro getCachedMailboxId_fresh) simp_all
  with first stored show ?thesis by simp
qed

theorem negative_result_is_cached_witness:
  "fst (getCachedMailboxId latin1 sample_db (Some '' Nobody@X.com '') 100 101 (CACHE_init 0)) = Inr None
   \<and> getCachedMailboxId latin1 failing_db (Some '' Nobody@X.com '') 600100 600200
        (snd (getCachedMailboxId latin1 sample_db (Some '' Nobody@X.com '') 100 101 (CACHE_init 0)))
      = (Inr None, snd (getCachedMailboxId latin1 sample_db (Some '' Nobody@X.com '') 100 101 (CACHE_init 0)))"
proof -
  have n: "normalized latin1 (Some '' Nobody@X.com '') = ''nobody@x.com''" by code_simp
  have 1: "normalized latin1 (Some '' Nobody@X.com '') \<noteq> []" by (simp add: n)
  have 2: "no_fresh CACHE_TTL_mailboxId 100
      (Map_get (normalized latin1 (Some '' Nobody@X.com '')) (mailboxIds (CACHE_init 0)))"
    by (simp add: no_fresh_def CACHE_init_def)
  have 3: "select_mailbox_id sample_db (normalized latin1 (Some '' Nobody@X.com '')) = Inr []"
    by (simp add: n sample_db_def)
  have 4: "(600100::int) - 101 < CACHE_TTL_mailboxId" by (simp add: CACHE_TTL_mailboxId_def)
  from negative_result_is_cached [OF 1 2 3 4, of failing_db 600200] show ?thesis by simp
qed

section \<open>Which keys a call can add\<close>

lemma Map_keys_set_subset: "set (Map_keys (Map_set k v m)) = insert k (set (Map_keys m))"
  by (cases "k \<in> set (Map_keys m)") (auto simp: Map_keys_set_new Map_keys_set_old)

lemma Map_keys_delete_subset: "set (Map_keys (Map_delete k m)) \<subseteq> set (Map_keys m)"
  by (auto simp: Map_keys_delete)

lemma Map_keys_sweepExpired_subset: "set (Map_keys (sweepExpired now t rest m)) \<subseteq> set (Map_keys m)"
  by (auto simp: sweepExpired_filter_gen Map_keys_def)

lemma CACHE_call_no_empty_address:
  assumes "[] \<notin> set (Map_keys (mailboxIds c))"
  shows "[] \<notin> set (Map_keys (mailboxIds (CACHE_call sp call c)))"
proof (cases call)
  case (GetTableStructure d tableName now now')
  then show ?thesis using assms
    by (auto simp: getCachedTableStructure_def Let_def split: option.splits sum.splits if_splits)
next
  case (GetMailboxId d address now now')
  then show ?thesis using assms
    by (auto simp: getCachedMailboxId_def Let_def Map_keys_set_subset
        split: option.splits sum.splits if_splits)
next
  case (UpdateMailboxId address i now)
  then show ?thesis using assms
    by (auto simp: updateMailboxIdCache_def Let_def Map_keys_set_subset)
next
  case (InvalidateMailbox address)
  then show ?thesis using assms Map_keys_delete_subset [of "normalized sp address" "mailboxIds c"]
    by (auto simp: invalidateMailboxCache_def)
next
  case (GetUserQuota d userId now now')
  then show ?thesis using assms
    by (auto simp: getCachedUserQuota_def Let_def split: option.splits sum.splits if_splits)
next
  case (InvalidateUserQuota userId)
  then show ?thesis using assms by (simp add: invalidateUserQuotaCache_def)
next
  case (GetSystemStat d statKey queryFn now now')
  then show ?thesis using assms
    by (auto simp: getCachedSystemStat_def Let_def split: option.splits sum.splits if_splits)
next
  case (InvalidateSystemStat statKey)
  then show ?thesis using assms
    by (auto simp: invalidateSystemStatCache_def split: option.splits)
next
  case (ClearExpired now)
  then show ?thesis
    using assms Map_keys_sweepExpired_subset [of now CACHE_TTL_mailboxId "mailboxIds c" "mailboxIds c"]
    by (auto simp: clearExpiredCache_def)
next
  case (ClearAll now)
  then show ?thesis by (simp add: clearAllCache_def Map_keys_def)
qed

lemma CACHE_run_no_empty_address:
  "[] \<notin> set (Map_keys (mailboxIds c)) \<Longrightarrow>
     [] \<notin> set (Map_keys (mailboxIds (CACHE_run sp calls c)))"
  by (induction calls arbitrary: c) (simp_all add: CACHE_call_no_empty_address)

lemma malformed_normalized:
  assumes "trim sp [] = []" and "toLowerCase sp [] = []"
    and "address = None \<or> (\<exists>s. address = Some s \<and> trim sp s = [])"
  shows "normalized sp address = []"
  using assms by (auto simp: normalized_def)

text \<open>
  C9.  The runtime's \<open>trim\<close> and \<open>toLowerCase\<close> give the empty string on the empty
  string.  So for an address that is \<open>null\<close>, or a string that \<open>trim\<close> leaves empty (the
  empty string and every string of white space only), the normalised form is empty; and
  whenever it is, the get-or-load of the mailbox id returns \<open>null\<close> and the cache it was
  given, whatever the cache holds and whatever the database would do, and
  \<open>updateMailboxIdCache\<close> writes nothing.  No history of calls of the exported
  functions, from the cache as the module creates it, leaves an entry under the empty
  string among the mailbox ids.
\<close>

theorem malformed_address_short_circuits:
  assumes "trim sp [] = []" and "toLowerCase sp [] = []"
  shows "(address = None \<or> (\<exists>s. address = Some s \<and> trim sp s = []) \<longrightarrow>
            normalized sp address = []
          \<and> getCachedMailboxId sp d address now now' c = (Inr None, c)
          \<and> updateMailboxIdCache sp address i now c = c)
       \<and> (normalized sp address = [] \<longrightarrow>
            getCachedMailboxId sp d address now now' c = (Inr None, c)
          \<and> updateMailboxIdCache sp address i now c = c)
       \<and> Map_get [] (mailboxIds (CACHE_run sp calls (CACHE_init tinit))) = None"
proof -
  have short: "getCachedMailboxId sp d address now now' c = (Inr None, c)
      \<and> updateMailboxIdCache sp address i now c = c"
    if "normalized sp address = []"
    using that by (simp add: getCachedMailboxId_def updateMailboxIdCache_def)
  have "[] \<notin> set (Map_keys (mailboxIds (CACHE_init tinit)))"
    by (simp add: CACHE_init_def Map_keys_def)
  then have "[] \<notin> set (Map_keys (mailboxIds (CACHE_run sp calls (CACHE_init tinit))))"
    by (rule CACHE_run_no_empty_address)
  then have never: "Map_get [] (mailboxIds (CACHE_run sp calls (CACHE_init tinit))) = None"
    by (simp add: Map_get_None_iff)
  from short never malformed_normalized [OF assms, of address] show ?thesis by blast
qed

theorem malformed_address_short_circuits_witness:
  "trim latin1 [] = [] \<and> toLowerCase latin1 [] = []
   \<and> trim latin1 [CHR 0x09, CHR 0x20, CHR 0xA0] = []
   \<and> getCachedMailboxId latin1 failing_db (Some [CHR 0x09, CHR 0x20, CHR 0xA0]) 5 6 sample_cache
        = (Inr None, sample_cache)
   \<and> getCachedMailboxId latin1 failing_db (Some []) 5 6 sample_cache = (Inr None, sample_cache)
   \<and> getCachedMailboxId latin1 failing_db None 5 6 sample_cache = (Inr None, sample_cache)
   \<and> updateMailboxIdCache latin1 (Some ''   '') (Some 3) 7 sample_cache = sample_cache
   \<and> Map_get [] (mailboxIds (CACHE_run latin1
        [GetMailboxId sample_db (Some ''   '') 5 6, UpdateMailboxId (Some []) (Some 3) 7,
         UpdateMailboxId None (Some 4) 8, GetMailboxId sample_db (Some ''A@x.com'') 9 10]
        (CACHE_init 0))) = None"
proof -
  have t: "trim latin1 [] = []" by code_simp
  have l: "toLowerCase latin1 [] = []" by code_simp
  have w: "trim latin1 [CHR 0x09, CHR 0x20, CHR 0xA0] = []" by code_simp
  have b: "trim latin1 ''   '' = []" by code_simp
  note inst = malformed_address_short_circuits
    [OF t l, where d = failing_db and now = 5 and now' = 6 and c = sample_cache
       and tinit = 0 and i = "Some 3"
       and calls = "[GetMailboxId sample_db (Some ''   '') 5 6, UpdateMailboxId (Some []) (Some 3) 7,
         UpdateMailboxId None (Some 4) 8, GetMailboxId sample_db (Some ''A@x.com'') 9 10]"]
  from inst [where address = "Some [CHR 0x09, CHR 0x20, CHR 0xA0]"] w
  have 1: "getCachedMailboxId latin1 failing_db (Some [CHR 0x09, CHR 0x20, CHR 0xA0]) 5 6 sample_cache
        = (Inr None, sample_cache)"
    by blast
  from inst [where address = "Some []"] t
  have 2: "getCachedMailboxId latin1 failing_db (Some []) 5 6 sample_cache = (Inr None, sample_cache)"
    by blast
  from inst [where address = None]
  have 3: "getCachedMailboxId latin1 failing_db None 5 6 sample_cache = (Inr None, sample_cache)"
    by blast
  from malformed_address_short_circuits
    [OF t l, where address = "Some ''   ''" and i = "Some 3" and now = 7 and c = sample_cache] b
  have 4: "updateMailboxIdCache latin1 (Some ''   '') (Some 3) 7 sample_cache = sample_cache"
    by blast
  from inst [where address = None]
  have 5: "Map_get [] (mailboxIds (CACHE_run latin1
        [GetMailboxId sample_db (Some ''   '') 5 6, UpdateMailboxId (Some []) (Some 3) 7,
         UpdateMailboxId None (Some 4) 8, GetMailboxId sample_db (Some ''A@x.com'') 9 10]
        (CACHE_init 0))) = None"
    by blast
  from t l w 1 2 3 4 5 show ?thesis by blast
qed

text \<open>
  C7.  In each of the four maps, an entry with value \<open>v\<close> stored at time \<open>tw\<close> is returned
  by a get-or-load at every time \<open>tr\<close> with \<open>tr - tw\<close> below the map's time-to-live, with
  the cache left as it is and the database not consulted; at every time \<open>tr\<close> with
  \<open>tr - tw\<close> equal to or above the time-to-live the entry counts for nothing and the
  answer is the loader's.  Such an entry, stamped with the clock reading \<open>tw\<close> taken at
  the write, is what a successful load leaves in each map, and what
  \<open>updateMailboxIdCache\<close> leaves for a non-empty address and an id other than \<open>null\<close>
  and 0.
\<close>

theorem entry_lives_for_ttl:
  "(Map_get tableName (tableStructures c) = Some \<lparr>val = cols, timestamp = tw\<rparr> \<longrightarrow>
      (tr - tw < CACHE_TTL_tableStructure \<longrightarrow>
         getCachedTableStructure d tableName tr tr' c = (Inr cols, c))
    \<and> (tr - tw \<ge> CACHE_TTL_tableStructure \<longrightarrow>
         fst (getCachedTableStructure d tableName tr tr' c) =
           (case table_info d tableName of Inl e \<Rightarrow> Inr [] | Inr rows \<Rightarrow> Inr (table_cols rows))))
   \<and> (normalized sp address \<noteq> []
      \<and> Map_get (normalized sp address) (mailboxIds c) = Some \<lparr>val = i, timestamp = tw\<rparr> \<longrightarrow>
      (tr - tw < CACHE_TTL_mailboxId \<longrightarrow>
         getCachedMailboxId sp d address tr tr' c = (Inr i, c))
    \<and> (tr - tw \<ge> CACHE_TTL_mailboxId \<longrightarrow>
         fst (getCachedMailboxId sp d address tr tr' c) =
           (case select_mailbox_id d (normalized sp address) of
              Inl e \<Rightarrow> Inl e
            | Inr rows \<Rightarrow> Inr (case rows of [] \<Rightarrow> None | r # _ \<Rightarrow> Some r))))
   \<and> (Map_get userId (userQuotas c) = Some \<lparr>val = q, timestamp = tw\<rparr> \<longrightarrow>
      (tr - tw < CACHE_TTL_userQuota \<longrightarrow>
         getCachedUserQuota d userId tr tr' c = (Inr q, c))
    \<and> (tr - tw \<ge> CACHE_TTL_userQuota \<longrightarrow>
         fst (getCachedUserQuota d userId tr tr' c) =
           (case select_mailbox_limit d userId of
              Inl e \<Rightarrow> Inl e
            | Inr urows \<Rightarrow>
                (case count_user_mailboxes d userId of
                   Inl e \<Rightarrow> Inl e
                 | Inr crows \<Rightarrow>
                     Inr \<lparr>used = (case crows of [] \<Rightarrow> 0 | r # _ \<Rightarrow> r),
                          limit = (case urows of Some l # _ \<Rightarrow> l | _ \<Rightarrow> 10)\<rparr>))))
   \<and> (Map_get statKey (systemStats c) = Some \<lparr>val = n, timestamp = tw\<rparr> \<longrightarrow>
      (tr - tw < CACHE_TTL_systemStats \<longrightarrow>
         getCachedSystemStat d statKey queryFn tr tr' c = (Inr n, c))
    \<and> (tr - tw \<ge> CACHE_TTL_systemStats \<longrightarrow>
         fst (getCachedSystemStat d statKey queryFn tr tr' c) = queryFn d))
   \<and> (no_fresh CACHE_TTL_tableStructure now (Map_get tableName (tableStructures c))
      \<and> table_info d tableName = Inr rows \<longrightarrow>
      Map_get tableName (tableStructures (snd (getCachedTableStructure d tableName now tw c)))
        = Some \<lparr>val = table_cols rows, timestamp = tw\<rparr>)
   \<and> (normalized sp address \<noteq> []
      \<and> no_fresh CACHE_TTL_mailboxId now (Map_get (normalized sp address) (mailboxIds c))
      \<and> select_mailbox_id d (normalized sp address) = Inr ids \<longrightarrow>
      Map_get (normalized sp address) (mailboxIds (snd (getCachedMailboxId sp d address now tw c)))
        = Some \<lparr>val = (case ids of [] \<Rightarrow> None | r # _ \<Rightarrow> Some r), timestamp = tw\<rparr>)
   \<and> (normalized sp address \<noteq> [] \<and> \<not> falsy_id i \<longrightarrow>
      Map_get (normalized sp address) (mailboxIds (updateMailboxIdCache sp address i tw c))
        = Some \<lparr>val = i, timestamp = tw\<rparr>)
   \<and> (no_fresh CACHE_TTL_userQuota now (Map_get userId (userQuotas c))
      \<and> select_mailbox_limit d userId = Inr urows \<and> count_user_mailboxes d userId = Inr crows \<longrightarrow>
      Map_get userId (userQuotas (snd (getCachedUserQuota d userId now tw c)))
        = Some \<lparr>val = \<lparr>used = (case crows of [] \<Rightarrow> 0 | r # _ \<Rightarrow> r),
                       limit = (case urows of Some l # _ \<Rightarrow> l | _ \<Rightarrow> 10)\<rparr>,
                 timestamp = tw\<rparr>)
   \<and> (no_fresh CACHE_TTL_systemStats now (Map_get statKey (systemStats c))
      \<and> queryFn d = Inr n \<longrightarrow>
      Map_get statKey (systemStats (snd (getCachedSystemStat d statKey queryFn now tw c)))
        = Some \<lparr>val = n, timestamp = tw\<rparr>)"
proof -
  have stale: "\<not> tr - tw < t \<Longrightarrow> no_fresh t tr (Some \<lparr>val = x, timestamp = tw\<rparr>)"
    for t :: int and x :: 'x
    by (simp add: no_fresh_def)
  have tab: "Map_get tableName (tableStructures c) = Some \<lparr>val = cols, timestamp = tw\<rparr> \<longrightarrow>
      (tr - tw < CACHE_TTL_tableStructure \<longrightarrow>
         getCachedTableStructure d tableName tr tr' c = (Inr cols, c))
    \<and> (tr - tw \<ge> CACHE_TTL_tableStructure \<longrightarrow>
         fst (getCachedTableStructure d tableName tr tr' c) =
           (case table_info d tableName of Inl e \<Rightarrow> Inr [] | Inr rows \<Rightarrow> Inr (table_cols rows)))"
    by (auto simp: getCachedTableStructure_fresh getCachedTableStructure_load stale
        split: sum.splits)
  have mbx: "normalized sp address \<noteq> []
      \<and> Map_get (normalized sp address) (mailboxIds c) = Some \<lparr>val = i, timestamp = tw\<rparr> \<longrightarrow>
      (tr - tw < CACHE_TTL_mailboxId \<longrightarrow>
         getCachedMailboxId sp d address tr tr' c = (Inr i, c))
    \<and> (tr - tw \<ge> CACHE_TTL_mailboxId \<longrightarrow>
         fst (getCachedMailboxId sp d address tr tr' c) =
           (case select_mailbox_id d (normalized sp address) of
              Inl e \<Rightarrow> Inl e
            | Inr rows \<Rightarrow> Inr (case rows of [] \<Rightarrow> None | r # _ \<Rightarrow> Some r)))"
    by (auto simp: getCachedMailboxId_fresh getCachedMailboxId_load stale split: sum.splits)
  have quo: "Map_get userId (userQuotas c) = Some \<lparr>val = q, timestamp = tw\<rparr> \<longrightarrow>
      (tr - tw < CACHE_TTL_userQuota \<longrightarrow>
         getCachedUserQuota d userId tr tr' c = (Inr q, c))
    \<and> (tr - tw \<ge> CACHE_TTL_userQuota \<longrightarrow>
         fst (getCachedUserQuota d userId tr tr' c) =
           (case select_mailbox_limit d userId of
              Inl e \<Rightarrow> Inl e
            | Inr urows \<Rightarrow>
                (case count_user_mailboxes d userId of
                   Inl e \<Rightarrow> Inl e
                 | Inr crows \<Rightarrow>
                     Inr \<lparr>used = (case crows of [] \<Rightarrow> 0 | r # _ \<Rightarrow> r),
                          limit = (case urows of Some l # _ \<Rightarrow> l | _ \<Rightarrow> 10)\<rparr>)))"
    by (auto simp: getCachedUserQuota_fresh getCachedUserQuota_load stale split: sum.splits)
  have sta: "Map_get statKey (systemStats c) = Some \<lparr>val = n, timestamp = tw\<rparr> \<longrightarrow>
      (tr - tw < CACHE_TTL_systemStats \<longrightarrow>
         getCachedSystemStat d statKey queryFn tr tr' c = (Inr n, c))
    \<and> (tr - tw \<ge> CACHE_TTL_systemStats \<longrightarrow>
         fst (getCachedSystemStat d statKey queryFn tr tr' c) = queryFn d)"
    by (auto simp: getCachedSystemStat_fresh getCachedSystemStat_load stale split: sum.splits)
  have w1: "no_fresh CACHE_TTL_tableStructure now (Map_get tableName (tableStructures c))
      \<and> table_info d tableName = Inr rows \<longrightarrow>
      Map_get tableName (tableStructures (snd (getCachedTableStructure d tableName now tw c)))
        = Some \<lparr>val = table_cols rows, timestamp = tw\<rparr>"
    by (simp add: getCachedTableStructure_load Map_get_set)
  have w2: "normalized sp address \<noteq> []
      \<and> no_fresh CACHE_TTL_mailboxId now (Map_get (normalized sp address) (mailboxIds c))
      \<and> select_mailbox_id d (normalized sp address) = Inr ids \<longrightarrow>
      Map_get (normalized sp address) (mailboxIds (snd (getCachedMailboxId sp d address now tw c)))
        = Some \<lparr>val = (case ids of [] \<Rightarrow> None | r # _ \<Rightarrow> Some r), timestamp = tw\<rparr>"
    by (simp add: getCachedMailboxId_load Map_get_set)
  have w3: "normalized sp address \<noteq> [] \<and> \<not> falsy_id i \<longrightarrow>
      Map_get (normalized sp address) (mailboxIds (updateMailboxIdCache sp address i tw c))
        = Some \<lparr>val = i, timestamp = tw\<rparr>"
    by (simp add: updateMailboxIdCache_def Map_get_set)
  have w4: "no_fresh CACHE_TTL_userQuota now (Map_get userId (userQuotas c))
      \<and> select_mailbox_limit d userId = Inr urows \<and> count_user_mailboxes d userId = Inr crows \<longrightarrow>
      Map_get userId (userQuotas (snd (getCachedUserQuota d userId now tw c)))
        = Some \<lparr>val = \<lparr>used = (case crows of [] \<Rightarrow> 0 | r # _ \<Rightarrow> r),
                       limit = (case urows of Some l # _ \<Rightarrow> l | _ \<Rightarrow> 10)\<rparr>,
                 timestamp = tw\<rparr>"
    by (simp add: getCachedUserQuota_load Map_get_set)
  have w5: "no_fresh CACHE_TTL_systemStats now (Map_get statKey (systemStats c))
      \<and> queryFn d = Inr n \<longrightarrow>
      Map_get statKey (systemStats (snd (getCachedSystemStat d statKey queryFn now tw c)))
        = Some \<lparr>val = n, timestamp = tw\<rparr>"
    by (simp add: getCachedSystemStat_load Map_get_set)
  from tab mbx quo sta w1 w2 w3 w4 w5 show ?thesis by (intro conjI)
qed


theorem entry_lives_for_ttl_witness:
  "getCachedTableStructure failing_db ''mailboxes'' 3599999 3600005 sample_cache
     = (Inr sample_cols, sample_cache)
   \<and> fst (getCachedTableStructure sample_db ''mailboxes'' 3600000 3600005 sample_cache)
     = Inr [\<lparr>name = ''address'', type = ''TEXT'', notnull = 1, dflt_value = None\<rparr>]
   \<and> getCachedMailboxId latin1 failing_db (Some ''a@x.com'') 599999 600005 sample_cache
     = (Inr (Some 1), sample_cache)
   \<and> fst (getCachedMailboxId latin1 sample_db (Some ''a@x.com'') 600000 600005 sample_cache)
     = Inr (Some 7)
   \<and> getCachedUserQuota failing_db 1 299999 300005 sample_cache
     = (Inr \<lparr>used = 2, limit = 10\<rparr>, sample_cache)
   \<and> fst (getCachedUserQuota sample_db 1 300000 300005 sample_cache)
     = Inr \<lparr>used = 3, limit = 20\<rparr>
   \<and> getCachedSystemStat failing_db ''total_mailboxes'' (\<lambda>_. Inr 6) 599999 600005 sample_cache
     = (Inr 5, sample_cache)
   \<and> fst (getCachedSystemStat failing_db ''total_mailboxes'' (\<lambda>_. Inr 6) 600000 600005 sample_cache)
     = Inr 6
   \<and> Map_get ''a@x.com'' (mailboxIds (updateMailboxIdCache latin1 (Some ''a@x.com'') (Some 1) 0 (CACHE_init 0)))
     = Some \<lparr>val = Some 1, timestamp = 0\<rparr>"
proof -
  have n: "normalized latin1 (Some ''a@x.com'') = ''a@x.com''" by code_simp
  note inst = entry_lives_for_ttl
    [where sp = latin1 and tableName = "''mailboxes''" and cols = sample_cols and tw = 0
       and address = "Some ''a@x.com''" and i = "Some 1"
       and userId = 1 and q = "\<lparr>used = 2, limit = 10\<rparr>"
       and statKey = "''total_mailboxes''" and n = 5 and queryFn = "\<lambda>_. Inr 6"]
  have fresh: "getCachedTableStructure failing_db ''mailboxes'' 3599999 3600005 sample_cache
     = (Inr sample_cols, sample_cache)
   \<and> getCachedMailboxId latin1 failing_db (Some ''a@x.com'') 599999 600005 sample_cache
     = (Inr (Some 1), sample_cache)
   \<and> getCachedUserQuota failing_db 1 299999 300005 sample_cache
     = (Inr \<lparr>used = 2, limit = 10\<rparr>, sample_cache)"
    using inst [where c = sample_cache and d = failing_db and tr = 3599999 and tr' = 3600005]
      inst [where c = sample_cache and d = failing_db and tr = 599999 and tr' = 600005]
      inst [where c = sample_cache and d = failing_db and tr = 299999 and tr' = 300005]
    by (simp add: n sample_cache_def CACHE_TTL_tableStructure_def CACHE_TTL_mailboxId_def
        CACHE_TTL_userQuota_def)
  have fresh_stat:
    "getCachedSystemStat failing_db ''total_mailboxes'' (\<lambda>_. Inr 6) 599999 600005 sample_cache
     = (Inr 5, sample_cache)
   \<and> fst (getCachedSystemStat failing_db ''total_mailboxes'' (\<lambda>_. Inr 6) 600000 600005 sample_cache)
     = Inr 6"
    using inst [where c = sample_cache and d = failing_db and tr = 599999 and tr' = 600005]
      inst [where c = sample_cache and d = failing_db and tr = 600000 and tr' = 600005]
    by (simp add: sample_cache_def CACHE_TTL_systemStats_def)
  have stale: "fst (getCachedTableStructure sample_db ''mailboxes'' 3600000 3600005 sample_cache)
     = Inr [\<lparr>name = ''address'', type = ''TEXT'', notnull = 1, dflt_value = None\<rparr>]
   \<and> fst (getCachedMailboxId latin1 sample_db (Some ''a@x.com'') 600000 600005 sample_cache)
     = Inr (Some 7)
   \<and> fst (getCachedUserQuota sample_db 1 300000 300005 sample_cache)
     = Inr \<lparr>used = 3, limit = 20\<rparr>"
    using inst [where c = sample_cache and d = sample_db and tr = 3600000 and tr' = 3600005]
      inst [where c = sample_cache and d = sample_db and tr = 600000 and tr' = 600005]
      inst [where c = sample_cache and d = sample_db and tr = 300000 and tr' = 300005]
    by (simp add: n sample_cache_def sample_db_def table_cols_def CACHE_TTL_tableStructure_def
        CACHE_TTL_mailboxId_def CACHE_TTL_userQuota_def)
  have written:
    "Map_get ''a@x.com'' (mailboxIds (updateMailboxIdCache latin1 (Some ''a@x.com'') (Some 1) 0 (CACHE_init 0)))
     = Some \<lparr>val = Some 1, timestamp = 0\<rparr>"
    using inst [where c = "CACHE_init 0"] by (simp add: n falsy_id_def)
  from fresh fresh_stat stale written show ?thesis by blast
qed

section \<open>Calls on one key leave the other keys alone\<close>







section \<open>Reading back what was set\<close>

lemma LRU_get_after_set:
  "LRU_get key tr (LRU_set key v tw l) =
     (if tr - tw > ttl l
      then (None, (LRU_set key v tw l)\<lparr>cache := Map_delete key (cache (LRU_set key v tw l))\<rparr>)
      else (Some v, (LRU_set key v tw l)\<lparr>cache :=
              Map_set key \<lparr>val = v, timestamp = tw\<rparr> (Map_delete key (cache (LRU_set key v tw l)))\<rparr>))"
proof -
  have "Map_get key (cache (LRU_set key v tw l)) = Some \<lparr>val = v, timestamp = tw\<rparr>"
    by (simp add: LRU_set_def Let_def Map_get_set)
  moreover have "ttl (LRU_set key v tw l) = ttl l"
    by (simp add: LRU_set_def Let_def)
  ultimately show ?thesis
    by (simp add: LRU_get_def Map_has_def)
qed

text \<open>
  C4 (as amended).  \<open>updateMailboxIdCache\<close> writes only for an address whose normalised
  form is not empty and an id that is neither \<open>null\<close> nor 0; then a get-or-load of the
  address at a time \<open>tr\<close> with \<open>tr - tw\<close> below the time-to-live returns the id, with the
  database not consulted.  For an empty normalised address, \<open>null\<close> or 0 it leaves the
  cache as it was.  In the LRU store, \<open>set\<close> writes for every key and value, and a \<open>get\<close>
  of the key at a time \<open>tr\<close> with \<open>tr - tw\<close> not above the store's \<open>ttl\<close> returns the
  value.
\<close>

theorem set_then_get_returns_value:
  "(normalized sp address \<noteq> [] \<and> \<not> falsy_id i \<and> tr - tw < CACHE_TTL_mailboxId \<longrightarrow>
      getCachedMailboxId sp d address tr tr' (updateMailboxIdCache sp address i tw c)
        = (Inr i, updateMailboxIdCache sp address i tw c))
   \<and> (normalized sp address = [] \<or> falsy_id i \<longrightarrow> updateMailboxIdCache sp address i tw c = c)
   \<and> (tr - tw \<le> ttl l \<longrightarrow> fst (LRU_get key tr (LRU_set key v tw l)) = Some v)
   \<and> Map_get key (cache (LRU_set key v tw l)) = Some \<lparr>val = v, timestamp = tw\<rparr>"
proof -
  have "getCachedMailboxId sp d address tr tr' (updateMailboxIdCache sp address i tw c)
        = (Inr i, updateMailboxIdCache sp address i tw c)"
    if "normalized sp address \<noteq> []" "\<not> falsy_id i" "tr - tw < CACHE_TTL_mailboxId"
  proof -
    have "Map_get (normalized sp address) (mailboxIds (updateMailboxIdCache sp address i tw c))
        = Some \<lparr>val = i, timestamp = tw\<rparr>"
      using that by (simp add: updateMailboxIdCache_def Map_get_set)
    from getCachedMailboxId_fresh [OF that(1) this, of tr d tr'] that(3)
    show ?thesis by simp
  qed
  moreover have "normalized sp address = [] \<or> falsy_id i \<longrightarrow> updateMailboxIdCache sp address i tw c = c"
    by (auto simp: updateMailboxIdCache_def)
  moreover have "tr - tw \<le> ttl l \<longrightarrow> fst (LRU_get key tr (LRU_set key v tw l)) = Some v"
    by (simp add: LRU_get_after_set)
  moreover have "Map_get key (cache (LRU_set key v tw l)) = Some \<lparr>val = v, timestamp = tw\<rparr>"
    by (simp add: LRU_set_def Let_def Map_get_set)
  ultimately show ?thesis by blast
qed

theorem set_then_get_returns_value_witness:
  "getCachedMailboxId latin1 failing_db (Some ''New@x.com'') 599999 600000
       (updateMailboxIdCache latin1 (Some ''New@x.com'') (Some 42) 0 sample_cache)
     = (Inr (Some 42), updateMailboxIdCache latin1 (Some ''New@x.com'') (Some 42) 0 sample_cache)
   \<and> updateMailboxIdCache latin1 (Some ''a@x.com'') (Some 0) 5 sample_cache = sample_cache
   \<and> updateMailboxIdCache latin1 (Some ''  '') (Some 42) 5 sample_cache = sample_cache
   \<and> fst (LRU_get ''email_content_1'' 3600000
            (LRU_set ''email_content_1'' ''body'' 0 (emailContentCache :: string LRUCache)))
       = Some ''body''"
proof -
  note inst = set_then_get_returns_value
    [where l = "emailContentCache :: string LRUCache" and key = "''email_content_1''"
       and v = "''body''" and d = failing_db and c = sample_cache and tr' = 600000]
  have n: "normalized latin1 (Some ''New@x.com'') = ''new@x.com''" by code_simp
  have e: "normalized latin1 (Some ''  '') = []" by code_simp
  have 1: "getCachedMailboxId latin1 failing_db (Some ''New@x.com'') 599999 600000
       (updateMailboxIdCache latin1 (Some ''New@x.com'') (Some 42) 0 sample_cache)
     = (Inr (Some 42), updateMailboxIdCache latin1 (Some ''New@x.com'') (Some 42) 0 sample_cache)"
    using inst [where address = "Some ''New@x.com''" and i = "Some 42" and tr = 599999 and tw = 0]
    by (simp add: n falsy_id_def CACHE_TTL_mailboxId_def)
  have 2: "updateMailboxIdCache latin1 (Some ''a@x.com'') (Some 0) 5 sample_cache = sample_cache"
    using inst [where address = "Some ''a@x.com''" and i = "Some 0" and tr = 6 and tw = 5]
    by (simp add: falsy_id_def)
  have 3: "updateMailboxIdCache latin1 (Some ''  '') (Some 42) 5 sample_cache = sample_cache"
    using inst [where address = "Some ''  ''" and i = "Some 42" and tr = 6 and tw = 5]
    by (simp add: e)
  have 4: "fst (LRU_get ''email_content_1'' 3600000
            (LRU_set ''email_content_1'' ''body'' 0 (emailContentCache :: string LRUCache)))
       = Some ''body''"
    using inst [where address = None and i = None and tr = 3600000 and tw = 0]
    by (simp add: emailContentCache_def LRUCache_new_def)
  from 1 2 3 4 show ?thesis by blast
qed

theorem set_of_zero_id_is_dropped_counterexample:
  "updateMailboxIdCache latin1 (Some ''a@x.com'') (Some 0) 5 sample_cache = sample_cache
   \<and> fst (getCachedMailboxId latin1 sample_db (Some ''a@x.com'') 6 7
            (updateMailboxIdCache latin1 (Some ''a@x.com'') (Some 0) 5 sample_cache)) = Inr (Some 1)
   \<and> updateMailboxIdCache latin1 (Some ''c@x.com'') None 5 sample_cache = sample_cache
   \<and> Map_get ''c@x.com'' (mailboxIds (updateMailboxIdCache latin1 (Some ''c@x.com'') None 5 sample_cache))
       = None"
proof -
  have n: "normalized latin1 (Some ''a@x.com'') = ''a@x.com''" by code_simp
  have m: "normalized latin1 (Some ''c@x.com'') = ''c@x.com''" by code_simp
  have 1: "updateMailboxIdCache latin1 (Some ''a@x.com'') (Some 0) 5 sample_cache = sample_cache"
    by (simp add: updateMailboxIdCache_def falsy_id_def)
  have 2: "updateMailboxIdCache latin1 (Some ''c@x.com'') None 5 sample_cache = sample_cache"
    by (simp add: updateMailboxIdCache_def falsy_id_def)
  show ?thesis
    unfolding 1 2
    by (simp add: getCachedMailboxId_def n m sample_cache_def CACHE_TTL_mailboxId_def)
qed

section \<open>The LRU store\<close>

lemma Map_has_iff: "Map_has k m \<longleftrightarrow> k \<in> set (Map_keys m)"
  by (simp add: Map_has_def Map_get_None_iff)

lemma Map_keys_delete_notin: "k \<notin> set (Map_keys (Map_delete k m))"
  by (simp add: Map_keys_delete)

lemma Map_delete_hd: "Map_wf ((k, v) # m) \<Longrightarrow> Map_delete k m = m"
  by (simp add: Map_wf_def Map_keys_def Map_delete_absent [unfolded Map_keys_def])

text \<open>What \<open>set\<close> leaves in the map, case by case.\<close>

lemma LRU_set_present_Map_set:
  assumes "Map_wf (cache l)" and "Map_has key (cache l)" and "Map_size (cache l) \<le> capacity l"
  shows "cache (LRU_set key v now l) =
           Map_set key \<lparr>val = v, timestamp = now\<rparr> (Map_delete key (cache l))"
proof -
  from assms have "Map_size (Map_delete key (cache l)) = Map_size (cache l) - 1"
    by (simp add: Map_size_delete_present Map_has_iff)
  with assms(3) have "\<not> Map_size (Map_delete key (cache l)) \<ge> capacity l" by simp
  then show ?thesis
    using assms(2) by (simp add: LRU_set_def Let_def)
qed

lemma LRU_set_present:
  assumes "Map_wf (cache l)" and "Map_has key (cache l)" and "Map_size (cache l) \<le> capacity l"
  shows "cache (LRU_set key v now l) =
           Map_delete key (cache l) @ [(key, \<lparr>val = v, timestamp = now\<rparr>)]"
  by (simp add: LRU_set_present_Map_set [OF assms] Map_set_new Map_keys_delete_notin)

lemma LRU_set_new_room:
  assumes "\<not> Map_has key (cache l)" and "Map_size (cache l) < capacity l"
  shows "cache (LRU_set key v now l) = cache l @ [(key, \<lparr>val = v, timestamp = now\<rparr>)]"
  using assms by (simp add: LRU_set_def Let_def Map_set_new Map_has_iff)

lemma LRU_set_new_full:
  assumes "Map_wf (cache l)" and "\<not> Map_has key (cache l)"
    and "Map_size (cache l) \<ge> capacity l" and "cache l = (firstKey, item) # rest"
  shows "cache (LRU_set key v now l) = rest @ [(key, \<lparr>val = v, timestamp = now\<rparr>)]"
proof -
  from assms(1,4) have "Map_delete firstKey (cache l) = rest"
    using Map_delete_hd [of firstKey item rest] by simp
  moreover from assms(2,4) have "key \<notin> set (Map_keys rest)"
    by (simp add: Map_has_iff Map_keys_def)
  ultimately show ?thesis
    using assms(2,3,4) by (simp add: LRU_set_def Let_def Map_keys_def Map_set_new [unfolded Map_keys_def])
qed

text \<open>What \<open>get\<close> leaves in the map, case by case.\<close>

lemma LRU_get_missing: "\<not> Map_has key (cache l) \<Longrightarrow> LRU_get key now l = (None, l)"
  by (simp add: LRU_get_def)

lemma LRU_get_expired:
  assumes "Map_get key (cache l) = Some item" and "now - timestamp item > ttl l"
  shows "LRU_get key now l = (None, l\<lparr>cache := Map_delete key (cache l)\<rparr>)"
  using assms by (simp add: LRU_get_def Map_has_def)

lemma LRU_get_hit:
  assumes "Map_get key (cache l) = Some item" and "\<not> now - timestamp item > ttl l"
  shows "LRU_get key now l = (Some (val item), l\<lparr>cache := Map_delete key (cache l) @ [(key, item)]\<rparr>)"
  using assms by (simp add: LRU_get_def Map_has_def Map_set_new Map_keys_delete_notin)

text \<open>
  C10.  On a store whose map holds no key twice and holds as many entries as the
  capacity, \<open>set\<close> on a present key takes that key's entry out and appends the new one,
  stamped with the clock reading: the size and the set of keys are what they were, every
  other key keeps its entry, and the other keys keep their order.
\<close>

theorem LRU_set_present_at_capacity_evicts_nothing:
  assumes "Map_wf (cache l)" and "Map_has key (cache l)" and "LRU_size l = capacity l"
  shows "cache (LRU_set key v now l) =
           Map_delete key (cache l) @ [(key, \<lparr>val = v, timestamp = now\<rparr>)]
       \<and> LRU_size (LRU_set key v now l) = LRU_size l
       \<and> set (Map_keys (cache (LRU_set key v now l))) = set (Map_keys (cache l))
       \<and> Map_keys (cache (LRU_set key v now l))
           = filter (\<lambda>k'. k' \<noteq> key) (Map_keys (cache l)) @ [key]
       \<and> (\<forall>k'. k' \<noteq> key \<longrightarrow>
             Map_get k' (cache (LRU_set key v now l)) = Map_get k' (cache l))
       \<and> Map_get key (cache (LRU_set key v now l)) = Some \<lparr>val = v, timestamp = now\<rparr>
       \<and> capacity (LRU_set key v now l) = capacity l \<and> ttl (LRU_set key v now l) = ttl l"
proof -
  from assms have shape: "cache (LRU_set key v now l) =
      Map_delete key (cache l) @ [(key, \<lparr>val = v, timestamp = now\<rparr>)]"
    by (intro LRU_set_present) (simp_all add: LRU_size_def)
  from assms(1,2) have "Map_size (Map_delete key (cache l)) = Map_size (cache l) - 1"
    by (simp add: Map_size_delete_present Map_has_iff)
  then have size: "LRU_size (LRU_set key v now l) = LRU_size l"
    by (simp add: shape LRU_size_def Map_size_def)
  have keys: "Map_keys (cache (LRU_set key v now l))
           = filter (\<lambda>k'. k' \<noteq> key) (Map_keys (cache l)) @ [key]"
    by (simp add: shape Map_keys_def Map_delete_filter filter_map comp_def)
  from assms(2) have "set (Map_keys (cache (LRU_set key v now l))) = set (Map_keys (cache l))"
    unfolding keys by (auto simp: Map_has_iff)
  moreover have "\<forall>k'. k' \<noteq> key \<longrightarrow>
      Map_get k' (cache (LRU_set key v now l)) = Map_get k' (cache l)"
    using assms by (simp add: LRU_set_present_Map_set LRU_size_def Map_get_set Map_get_delete)
  moreover have "Map_get key (cache (LRU_set key v now l)) = Some \<lparr>val = v, timestamp = now\<rparr>"
    by (simp add: LRU_set_def Let_def Map_get_set)
  moreover have "capacity (LRU_set key v now l) = capacity l \<and> ttl (LRU_set key v now l) = ttl l"
    by (simp add: LRU_set_def Let_def)
  ultimately show ?thesis using shape size keys by blast
qed

theorem LRU_set_present_at_capacity_evicts_nothing_witness:
  "Map_wf (cache sample_lru) \<and> Map_has ''2'' (cache sample_lru)
   \<and> LRU_size sample_lru = capacity sample_lru
   \<and> cache (LRU_set ''2'' 99 5 sample_lru) =
        [(''1'', \<lparr>val = 10, timestamp = 0\<rparr>), (''3'', \<lparr>val = 30, timestamp = 2\<rparr>),
         (''2'', \<lparr>val = 99, timestamp = 5\<rparr>)]
   \<and> LRU_size (LRU_set ''2'' 99 5 sample_lru) = 3
   \<and> Map_keys (cache (LRU_set ''2'' 99 5 sample_lru)) = [''1'', ''3'', ''2'']"
proof -
  have wf: "Map_wf (cache sample_lru)"
    by (simp add: sample_lru_def Map_wf_def Map_keys_def)
  have has: "Map_has ''2'' (cache sample_lru)"
    by (simp add: sample_lru_def Map_has_def)
  have full: "LRU_size sample_lru = capacity sample_lru"
    by (simp add: sample_lru_def LRU_size_def Map_size_def)
  from LRU_set_present_at_capacity_evicts_nothing [OF wf has full, of 99 5] wf has full
  show ?thesis
    by (simp add: sample_lru_def LRU_size_def Map_size_def Map_keys_def)
qed

section \<open>The capacity bound\<close>


lemma LRU_set_fields: "capacity (LRU_set key v now l) = capacity l" "ttl (LRU_set key v now l) = ttl l"
  by (simp_all add: LRU_set_def Let_def)

lemma LRU_get_fields:
  "capacity (snd (LRU_get key now l)) = capacity l" "ttl (snd (LRU_get key now l)) = ttl l"
  by (simp_all add: LRU_get_def split: option.splits)

lemma LRU_set_inv:
  assumes "LRU_inv l" and "1 \<le> capacity l"
  shows "LRU_inv (LRU_set key v now l)"
proof -
  from assms(1) have wf: "Map_wf (cache l)" and le: "Map_size (cache l) \<le> capacity l"
    by (simp_all add: LRU_inv_def)
  have wf': "Map_wf (cache (LRU_set key v now l))"
    using wf by (auto simp: LRU_set_def Let_def intro!: Map_wf_set Map_wf_delete split: list.splits)
  have "Map_size (cache (LRU_set key v now l)) \<le> capacity l"
  proof (cases "Map_has key (cache l)")
    case True
    then have "Map_size (Map_delete key (cache l)) = Map_size (cache l) - 1"
      using wf by (simp add: Map_size_delete_present Map_has_iff)
    then show ?thesis
      using le by (simp add: LRU_set_present [OF wf True le] Map_size_def)
  next
    case False
    show ?thesis
    proof (cases "Map_size (cache l) < capacity l")
      case True
      then show ?thesis by (simp add: LRU_set_new_room [OF False True] Map_size_def)
    next
      case full: False
      with assms(2) have "cache l \<noteq> []" by (auto simp: Map_size_def)
      then obtain firstKey item rest where c: "cache l = (firstKey, item) # rest"
        by (cases "cache l") auto
      from full have "Map_size (cache l) \<ge> capacity l" by simp
      from LRU_set_new_full [OF wf False this c] le c show ?thesis
        by (simp add: Map_size_def)
    qed
  qed
  with wf' show ?thesis by (simp add: LRU_inv_def LRU_set_fields)
qed

lemma LRU_get_inv:
  assumes "LRU_inv l"
  shows "LRU_inv (snd (LRU_get key now l))"
proof -
  from assms have wf: "Map_wf (cache l)" and le: "Map_size (cache l) \<le> capacity l"
    by (simp_all add: LRU_inv_def)
  show ?thesis
  proof (cases "Map_get key (cache l)")
    case None
    then show ?thesis using assms by (simp add: LRU_get_def Map_has_def)
  next
    case (Some item)
    then have has: "key \<in> set (Map_keys (cache l))"
      using Map_get_None_iff [of key "cache l"] by simp
    have d: "Map_size (Map_delete key (cache l)) = Map_size (cache l) - 1"
      using wf has by (rule Map_size_delete_present)
    show ?thesis
    proof (cases "now - timestamp item > ttl l")
      case True
      then show ?thesis
        using wf le d by (simp add: LRU_get_expired [OF Some True] LRU_inv_def Map_wf_delete)
    next
      case False
      have "Map_wf (Map_set key item (Map_delete key (cache l)))"
        using wf by (intro Map_wf_set Map_wf_delete)
      then have "Map_wf (Map_delete key (cache l) @ [(key, item)])"
        by (simp add: Map_set_new Map_keys_delete_notin)
      then show ?thesis
        using le d by (simp add: LRU_get_hit [OF Some False] LRU_inv_def Map_size_def)
    qed
  qed
qed

lemma LRU_call_inv: "LRU_inv l \<Longrightarrow> 1 \<le> capacity l \<Longrightarrow> LRU_inv (LRU_call call l)"
  by (cases call) (simp_all add: LRU_set_inv LRU_get_inv)

lemma LRU_call_capacity: "capacity (LRU_call call l) = capacity l"
  by (cases call) (simp_all add: LRU_set_fields LRU_get_fields)

lemma LRU_run_inv: "LRU_inv l \<Longrightarrow> 1 \<le> capacity l \<Longrightarrow> LRU_inv (LRU_run calls l)"
  by (induction calls arbitrary: l) (simp_all add: LRU_call_inv LRU_call_capacity)

lemma LRU_run_capacity: "capacity (LRU_run calls l) = capacity l"
  by (induction calls arbitrary: l) (simp_all add: LRU_call_capacity)

lemma LRU_new_inv: "0 \<le> cap \<Longrightarrow> LRU_inv (LRUCache_new cap t)"
  by (simp add: LRU_inv_def LRUCache_new_def Map_wf_def Map_keys_def Map_size_def)

section \<open>The recency order\<close>

lemma recency_touch_append:
  assumes "sorted_wrt (\<lambda>a b. lt a < lt b) ks" and "\<forall>k \<in> set ks. lt k \<le> n" and "key \<notin> set ks"
  shows "sorted_wrt (\<lambda>a b. (lt(key := Suc n)) a < (lt(key := Suc n)) b) (ks @ [key])
       \<and> (\<forall>k \<in> set (ks @ [key]). (lt(key := Suc n)) k \<le> Suc n)"
proof -
  have "sorted_wrt (\<lambda>a b. (lt(key := Suc n)) a < (lt(key := Suc n)) b) ks"
    using assms(1,3) by (auto intro: sorted_wrt_mono_rel [rotated])
  moreover have "\<forall>k \<in> set ks. (lt(key := Suc n)) k < (lt(key := Suc n)) key"
    using assms(2,3) by (auto simp: less_Suc_eq_le)
  moreover have "\<forall>k \<in> set (ks @ [key]). (lt(key := Suc n)) k \<le> Suc n"
    using assms(2) by auto
  ultimately show ?thesis by (simp add: sorted_wrt_append)
qed

lemma recency_touch_absent:
  assumes "sorted_wrt (\<lambda>a b. lt a < lt b) ks" and "\<forall>k \<in> set ks. lt k \<le> n" and "key \<notin> set ks"
  shows "sorted_wrt (\<lambda>a b. (lt(key := Suc n)) a < (lt(key := Suc n)) b) ks
       \<and> (\<forall>k \<in> set ks. (lt(key := Suc n)) k \<le> Suc n)"
proof -
  have "sorted_wrt (\<lambda>a b. (lt(key := Suc n)) a < (lt(key := Suc n)) b) ks"
    using assms(1,3) by (auto intro: sorted_wrt_mono_rel [rotated])
  moreover have "\<forall>k \<in> set ks. (lt(key := Suc n)) k \<le> Suc n"
    using assms(2,3) by (auto intro: le_SucI)
  ultimately show ?thesis by simp
qed

text \<open>A call that leaves its key last in the map, behind keys that were there before.\<close>

lemma recency_inv_touch:
  assumes "recency_inv l t" and "call_key call = key"
    and "Map_keys (cache l') = ks @ [key]" and "key \<notin> set ks"
    and "\<exists>P. ks = filter P (Map_keys (cache l))"
  shows "recency_inv l' (record_touch call t)"
proof -
  from assms(5) obtain P where ks: "ks = filter P (Map_keys (cache l))" by blast
  from assms(1) have "sorted_wrt (\<lambda>a b. last_touch t a < last_touch t b) ks"
    and "\<forall>k \<in> set ks. last_touch t k \<le> calls_made t"
    by (auto simp: recency_inv_def ks sorted_wrt_filter)
  from recency_touch_append [OF this assms(4)] show ?thesis
    by (simp add: recency_inv_def record_touch_def assms(2,3) Let_def)
qed

text \<open>A call that leaves its key out of the map, and of the other keys some.\<close>

lemma recency_inv_absent:
  assumes "recency_inv l t" and "call_key call = key"
    and "key \<notin> set (Map_keys (cache l'))"
    and "\<exists>P. Map_keys (cache l') = filter P (Map_keys (cache l))"
  shows "recency_inv l' (record_touch call t)"
proof -
  from assms(4) obtain P where ks: "Map_keys (cache l') = filter P (Map_keys (cache l))" by blast
  from assms(1) have "sorted_wrt (\<lambda>a b. last_touch t a < last_touch t b) (Map_keys (cache l'))"
    and "\<forall>k \<in> set (Map_keys (cache l')). last_touch t k \<le> calls_made t"
    by (auto simp: recency_inv_def ks sorted_wrt_filter)
  from recency_touch_absent [OF this assms(3)] show ?thesis
    by (simp add: recency_inv_def record_touch_def assms(2) Let_def)
qed

lemma Map_keys_append: "Map_keys (m @ m') = Map_keys m @ Map_keys m'"
  by (simp add: Map_keys_def)

lemma LRU_set_recency:
  assumes "LRU_inv l" and "recency_inv l t" and "1 \<le> capacity l"
  shows "recency_inv (LRU_set key v now l) (record_touch (Set key v now) t)"
proof -
  from assms(1) have wf: "Map_wf (cache l)" and le: "Map_size (cache l) \<le> capacity l"
    by (simp_all add: LRU_inv_def)
  have "\<exists>ks. Map_keys (cache (LRU_set key v now l)) = ks @ [key] \<and> key \<notin> set ks
      \<and> (\<exists>P. ks = filter P (Map_keys (cache l)))"
  proof (cases "Map_has key (cache l)")
    case True
    have "Map_keys (cache (LRU_set key v now l)) = filter (\<lambda>k'. k' \<noteq> key) (Map_keys (cache l)) @ [key]"
      by (simp add: LRU_set_present [OF wf True le] Map_keys_append Map_keys_delete)
        (simp add: Map_keys_def)
    then show ?thesis by auto
  next
    case False
    show ?thesis
    proof (cases "Map_size (cache l) < capacity l")
      case True
      have "Map_keys (cache (LRU_set key v now l)) = filter (\<lambda>_. True) (Map_keys (cache l)) @ [key]"
        by (simp add: LRU_set_new_room [OF False True] Map_keys_def)
      moreover from False have "key \<notin> set (filter (\<lambda>_. True) (Map_keys (cache l)))"
        by (simp add: Map_has_iff)
      ultimately show ?thesis by blast
    next
      case full: False
      with assms(3) have "cache l \<noteq> []" by (auto simp: Map_size_def)
      then obtain firstKey item rest where c: "cache l = (firstKey, item) # rest"
        by (cases "cache l") auto
      from full have "Map_size (cache l) \<ge> capacity l" by simp
      from LRU_set_new_full [OF wf False this c]
      have k: "Map_keys (cache (LRU_set key v now l)) = Map_keys rest @ [key]"
        by (simp add: Map_keys_def)
      from wf c have "firstKey \<notin> set (Map_keys rest)"
        by (simp add: Map_wf_def Map_keys_def)
      then have "filter (\<lambda>k'. k' \<noteq> firstKey) (Map_keys rest) = Map_keys rest"
        by (auto simp: filter_id_conv)
      then have "Map_keys rest = filter (\<lambda>k'. k' \<noteq> firstKey) (Map_keys (cache l))"
        by (simp add: c Map_keys_def)
      moreover from False c have "key \<notin> set (Map_keys rest)"
        by (simp add: Map_has_iff Map_keys_def)
      ultimately show ?thesis using k by blast
    qed
  qed
  then obtain ks where "Map_keys (cache (LRU_set key v now l)) = ks @ [key]" "key \<notin> set ks"
    "\<exists>P. ks = filter P (Map_keys (cache l))" by blast
  with assms(2) show ?thesis
    by (intro recency_inv_touch [where key = key and ks = ks]) simp_all
qed

lemma LRU_get_recency:
  assumes "recency_inv l t"
  shows "recency_inv (snd (LRU_get key now l)) (record_touch (Get key now) t)"
proof (cases "Map_get key (cache l)")
  case None
  then have same: "snd (LRU_get key now l) = l" by (simp add: LRU_get_def Map_has_def)
  from None have "key \<notin> set (Map_keys (cache l))" by (simp add: Map_get_None_iff)
  moreover have "\<exists>P. Map_keys (cache l) = filter P (Map_keys (cache l))"
    by (rule exI [of _ "\<lambda>_. True"]) simp
  ultimately show ?thesis
    unfolding same using assms by (intro recency_inv_absent [where key = key]) simp_all
next
  case (Some item)
  show ?thesis
  proof (cases "now - timestamp item > ttl l")
    case True
    have "Map_keys (cache (snd (LRU_get key now l))) = filter (\<lambda>k'. k' \<noteq> key) (Map_keys (cache l))"
      by (simp add: LRU_get_expired [OF Some True] Map_keys_delete)
    then show ?thesis
      using assms by (intro recency_inv_absent [where key = key]) auto
  next
    case False
    have "Map_keys (cache (snd (LRU_get key now l)))
        = filter (\<lambda>k'. k' \<noteq> key) (Map_keys (cache l)) @ [key]"
      by (simp add: LRU_get_hit [OF Some False] Map_keys_append Map_keys_delete)
        (simp add: Map_keys_def)
    with assms show ?thesis
      by (intro recency_inv_touch [where key = key
            and ks = "filter (\<lambda>k'. k' \<noteq> key) (Map_keys (cache l))"]) auto
  qed
qed

lemma LRU_call_recency:
  "LRU_inv l \<Longrightarrow> recency_inv l t \<Longrightarrow> 1 \<le> capacity l \<Longrightarrow>
     recency_inv (LRU_call call l) (record_touch call t)"
  by (cases call) (simp_all add: LRU_set_recency LRU_get_recency)

lemma LRU_run_touches_fst: "fst (LRU_run_touches calls (l, t)) = LRU_run calls l"
  by (induction calls arbitrary: l t) simp_all

lemma LRU_run_touches_recency:
  "LRU_inv l \<Longrightarrow> recency_inv l t \<Longrightarrow> 1 \<le> capacity l \<Longrightarrow>
     recency_inv (LRU_run calls l) (snd (LRU_run_touches calls (l, t)))"
proof (induction calls arbitrary: l t)
  case Nil
  then show ?case by simp
next
  case (Cons call calls)
  from Cons.prems show ?case
    by (simp add: Cons.IH LRU_call_inv LRU_call_recency LRU_call_capacity)
qed

lemma recency_inv_new: "recency_inv (LRUCache_new cap t) touches_new"
  by (simp add: recency_inv_def LRUCache_new_def touches_new_def Map_keys_def)

lemma LRU_scenario:
  assumes "td - ta \<le> 1000"
  shows "cache (LRU_run [Set ''1'' va ta, Set ''2'' vb tb, Set ''3'' vc tc, Get ''1'' td,
                         Set ''4'' ve te] (LRUCache_new 3 1000))
       = [(''3'', \<lparr>val = vc, timestamp = tc\<rparr>), (''1'', \<lparr>val = va, timestamp = ta\<rparr>),
          (''4'', \<lparr>val = ve, timestamp = te\<rparr>)]"
  using assms
  by (simp add: LRUCache_new_def LRU_set_def LRU_get_def Map_has_def Map_size_def Map_keys_def)

text \<open>
  C5.  For a store created with a capacity of at least 1 (the module's one store,
  \<open>emailContentCache\<close>, has capacity 1000) and any history of \<open>set\<close> and \<open>get\<close>
  calls, the size is at most the capacity after every call.  The keys stand in the map in
  the order of their last touch, by read or by write, so when \<open>set\<close> brings a new key to
  a full store, the key it evicts, the first of the map, was touched before every other
  key, and the new key comes last.  With capacity 3: after \<open>set\<close> of "1", "2", "3", a
  \<open>get\<close> of "1" and \<open>set\<close> of "4", the store holds "3", "1", "4" in this order and "2"
  is gone.
\<close>

theorem LRU_size_bounded_and_oldest_touch_evicted:
  assumes "1 \<le> cap"
  shows "LRU_size (LRU_run calls (LRUCache_new cap t)) \<le> cap
       \<and> (\<not> Map_has key (cache (LRU_run calls (LRUCache_new cap t)))
            \<and> LRU_size (LRU_run calls (LRUCache_new cap t)) = cap \<longrightarrow>
          (\<exists>first rest.
              Map_keys (cache (LRU_run calls (LRUCache_new cap t))) = first # rest
            \<and> Map_keys (cache (LRU_set key v now (LRU_run calls (LRUCache_new cap t))))
                = rest @ [key]
            \<and> (\<forall>k \<in> set rest.
                  last_touch (snd (LRU_run_touches calls (LRUCache_new cap t, touches_new))) first
                  < last_touch (snd (LRU_run_touches calls (LRUCache_new cap t, touches_new))) k)))
       \<and> (td - ta \<le> 1000 \<longrightarrow>
            Map_keys (cache (LRU_run [Set ''1'' va ta, Set ''2'' vb tb, Set ''3'' vc tc,
                                      Get ''1'' td, Set ''4'' ve te] (LRUCache_new 3 1000)))
              = [''3'', ''1'', ''4'']
          \<and> Map_get ''2'' (cache (LRU_run [Set ''1'' va ta, Set ''2'' vb tb, Set ''3'' vc tc,
                                           Get ''1'' td, Set ''4'' ve te] (LRUCache_new 3 1000)))
              = None)"
proof -
  let ?new = "LRUCache_new cap t :: 'a LRUCache"
  let ?l = "LRU_run calls ?new"
  let ?t = "snd (LRU_run_touches calls (?new, touches_new))"
  have cap: "capacity ?new = cap" by (simp add: LRUCache_new_def)
  from assms have inv0: "LRU_inv ?new" by (simp add: LRU_new_inv)
  from assms have inv: "LRU_inv ?l"
    by (intro LRU_run_inv inv0) (simp add: cap)
  have capl: "capacity ?l = cap" by (simp add: LRU_run_capacity cap)
  from inv have size: "LRU_size ?l \<le> cap"
    by (simp add: LRU_inv_def LRU_size_def capl)
  from assms have rec: "recency_inv ?l ?t"
    by (intro LRU_run_touches_recency inv0 recency_inv_new) (simp add: cap)
  have evict: "\<exists>first rest. Map_keys (cache ?l) = first # rest
      \<and> Map_keys (cache (LRU_set key v now ?l)) = rest @ [key]
      \<and> (\<forall>k \<in> set rest. last_touch ?t first < last_touch ?t k)"
    if new: "\<not> Map_has key (cache ?l)" and full: "LRU_size ?l = cap"
  proof -
    from full assms have "cache ?l \<noteq> []" by (auto simp: LRU_size_def Map_size_def)
    then obtain firstKey item rest where c: "cache ?l = (firstKey, item) # rest"
      by (cases "cache ?l") auto
    from inv have wf: "Map_wf (cache ?l)" by (simp add: LRU_inv_def)
    from full have ge: "Map_size (cache ?l) \<ge> capacity ?l" by (simp add: LRU_size_def capl)
    from LRU_set_new_full [OF wf new ge c]
    have "Map_keys (cache (LRU_set key v now ?l)) = Map_keys rest @ [key]"
      by (simp add: Map_keys_def)
    moreover have "Map_keys (cache ?l) = firstKey # Map_keys rest"
      by (simp add: c Map_keys_def)
    moreover from rec have "\<forall>k \<in> set (Map_keys rest). last_touch ?t firstKey < last_touch ?t k"
      by (simp add: recency_inv_def c Map_keys_def)
    ultimately show ?thesis by blast
  qed
  have scen: "td - ta \<le> 1000 \<longrightarrow>
            Map_keys (cache (LRU_run [Set ''1'' va ta, Set ''2'' vb tb, Set ''3'' vc tc,
                                      Get ''1'' td, Set ''4'' ve te] (LRUCache_new 3 1000)))
              = [''3'', ''1'', ''4'']
          \<and> Map_get ''2'' (cache (LRU_run [Set ''1'' va ta, Set ''2'' vb tb, Set ''3'' vc tc,
                                           Get ''1'' td, Set ''4'' ve te] (LRUCache_new 3 1000)))
              = None"
  proof
    assume "td - ta \<le> 1000"
    note s = LRU_scenario [OF this, of va vb tb vc tc ve te]
    show "Map_keys (cache (LRU_run [Set ''1'' va ta, Set ''2'' vb tb, Set ''3'' vc tc,
                                      Get ''1'' td, Set ''4'' ve te] (LRUCache_new 3 1000)))
              = [''3'', ''1'', ''4'']
          \<and> Map_get ''2'' (cache (LRU_run [Set ''1'' va ta, Set ''2'' vb tb, Set ''3'' vc tc,
                                           Get ''1'' td, Set ''4'' ve te] (LRUCache_new 3 1000)))
              = None"
      unfolding s by (simp add: Map_keys_def)
  qed
  from size evict scen show ?thesis by blast
qed

theorem LRU_size_bounded_and_oldest_touch_evicted_witness:
  "(1::int) \<le> 3
   \<and> LRU_size (LRU_run [Set ''1'' 10 0, Set ''2'' 20 1, Set ''3'' 30 2, Get ''1'' 3]
        (LRUCache_new 3 1000 :: int LRUCache)) \<le> 3
   \<and> \<not> Map_has ''4'' (cache (LRU_run [Set ''1'' 10 0, Set ''2'' 20 1, Set ''3'' 30 2, Get ''1'' 3]
        (LRUCache_new 3 1000 :: int LRUCache)))
   \<and> LRU_size (LRU_run [Set ''1'' 10 0, Set ''2'' 20 1, Set ''3'' 30 2, Get ''1'' 3]
        (LRUCache_new 3 1000 :: int LRUCache)) = 3
   \<and> Map_keys (cache (LRU_run [Set ''1'' 10 0, Set ''2'' 20 1, Set ''3'' 30 2, Get ''1'' 3]
        (LRUCache_new 3 1000 :: int LRUCache))) = [''2'', ''3'', ''1'']
   \<and> last_touch (snd (LRU_run_touches [Set ''1'' 10 0, Set ''2'' 20 1, Set ''3'' 30 2, Get ''1'' 3]
        (LRUCache_new 3 1000 :: int LRUCache, touches_new))) ''2'' = 2
   \<and> last_touch (snd (LRU_run_touches [Set ''1'' 10 0, Set ''2'' 20 1, Set ''3'' 30 2, Get ''1'' 3]
        (LRUCache_new 3 1000 :: int LRUCache, touches_new))) ''3'' = 3
   \<and> last_touch (snd (LRU_run_touches [Set ''1'' 10 0, Set ''2'' 20 1, Set ''3'' 30 2, Get ''1'' 3]
        (LRUCache_new 3 1000 :: int LRUCache, touches_new))) ''1'' = 4
   \<and> Map_keys (cache (LRU_run [Set ''1'' 10 0, Set ''2'' 20 1, Set ''3'' 30 2, Get ''1'' 3, Set ''4'' 40 4]
        (LRUCache_new 3 1000 :: int LRUCache))) = [''3'', ''1'', ''4'']"
proof -
  let ?calls = "[Set ''1'' 10 0, Set ''2'' 20 1, Set ''3'' 30 2, Get ''1'' 3] :: int lru_call list"
  let ?new = "LRUCache_new 3 1000 :: int LRUCache"
  have c: "cache (LRU_run ?calls ?new) =
      [(''2'', \<lparr>val = 20, timestamp = 1\<rparr>), (''3'', \<lparr>val = 30, timestamp = 2\<rparr>),
       (''1'', \<lparr>val = 10, timestamp = 0\<rparr>)]"
    by (simp add: LRUCache_new_def LRU_set_def LRU_get_def Map_has_def Map_size_def Map_keys_def)
  have new: "\<not> Map_has ''4'' (cache (LRU_run ?calls ?new))"
    unfolding c by (simp add: Map_has_def)
  have full: "LRU_size (LRU_run ?calls ?new) = 3"
    unfolding LRU_size_def c by (simp add: Map_size_def)
  have keys: "Map_keys (cache (LRU_run ?calls ?new)) = [''2'', ''3'', ''1'']"
    unfolding c by (simp add: Map_keys_def)
  have t: "last_touch (snd (LRU_run_touches ?calls (?new, touches_new))) ''2'' = 2
    \<and> last_touch (snd (LRU_run_touches ?calls (?new, touches_new))) ''3'' = 3
    \<and> last_touch (snd (LRU_run_touches ?calls (?new, touches_new))) ''1'' = 4"
    by (simp add: LRUCache_new_def LRU_set_def LRU_get_def Map_has_def Map_size_def Map_keys_def
        touches_new_def record_touch_def)
  have one: "(1::int) \<le> 3" by simp
  note inst = LRU_size_bounded_and_oldest_touch_evicted
    [OF one, where calls = ?calls and t = 1000 and key = "''4''" and v = 40 and now = 4
       and ta = 0 and td = 3 and va = 10 and vb = 20 and vc = 30 and ve = 40 and tb = 1
       and tc = 2 and te = 4]
  from inst have le: "LRU_size (LRU_run ?calls ?new) \<le> 3" by blast
  from inst new full obtain first rest where
    "Map_keys (cache (LRU_run ?calls ?new)) = first # rest"
    "Map_keys (cache (LRU_set ''4'' 40 4 (LRU_run ?calls ?new))) = rest @ [''4'']"
    by blast
  with keys have "Map_keys (cache (LRU_set ''4'' 40 4 (LRU_run ?calls ?new))) = [''3'', ''1'', ''4'']"
    by simp
  moreover have "LRU_run (?calls @ [Set ''4'' 40 4]) ?new = LRU_set ''4'' 40 4 (LRU_run ?calls ?new)"
    by simp
  ultimately have last: "Map_keys (cache (LRU_run (?calls @ [Set ''4'' 40 4]) ?new)) = [''3'', ''1'', ''4'']"
    by simp
  from le new full keys t last show ?thesis by simp
qed

end
